theory Spec2Isabelle
  imports Complex_Main "HOL-Library.Word" "HOL-Library.Log_Nat"
begin

section \<open>JavaScript values used by the services\<close>

subsection \<open>Numbers\<close>

text \<open>
  A JavaScript \<^verbatim>\<open>number\<close> is an IEEE 754 binary64 value: \<open>Fin a\<close> is the finite double of
  value \<open>a\<close>, with \<open>Fin 0\<close> the positive zero; \<open>NegZero\<close> is the negative zero; then the
  two infinities and NaN. \<open>val\<close> is the value of a finite number and \<open>negative\<close> its sign
  bit.
\<close>

datatype jsnum = Fin real | NegZero | PosInf | NegInf | NaN

fun is_finite :: "jsnum \<Rightarrow> bool" where
  "is_finite (Fin a) = True"
| "is_finite NegZero = True"
| "is_finite _ = False"

fun val :: "jsnum \<Rightarrow> real" where
  "val (Fin a) = a"
| "val _ = 0"

fun negative :: "jsnum \<Rightarrow> bool" where
  "negative (Fin a) = (a < 0)"
| "negative NegZero = True"
| "negative NegInf = True"
| "negative _ = False"

definition zero :: "bool \<Rightarrow> jsnum" where
  "zero neg = (if neg then NegZero else Fin 0)"

definition infinity :: "bool \<Rightarrow> jsnum" where
  "infinity neg = (if neg then NegInf else PosInf)"

text \<open>
  The result of an arithmetic operation is its exact result rounded to the nearest
  double, a tie going to the even significand. \<open>binade a\<close> is the exponent \<open>e\<close> with
  \<open>2^e \<le> a < 2^(e+1)\<close>; doubles of that binade are 2^(e-52) apart, and below 2^-1022
  (the subnormal range) 2^-1074 apart. A rounded magnitude of 2^1024 or more is an
  infinity, and a rounded magnitude of zero is a zero with the sign of the exact result.
  \<open>to_double neg x\<close> rounds the exact result \<open>x\<close>, with \<open>neg\<close> the sign that the
  operation gives an exact zero.
\<close>

definition pow2 :: "int \<Rightarrow> real" where
  "pow2 e = (if 0 \<le> e then 2 ^ nat e else 1 / 2 ^ nat (- e))"

definition binade :: "real \<Rightarrow> int" where
  "binade a =
     (if 1 \<le> a then bitlen \<lfloor>a\<rfloor> - 1
      else (let b = bitlen \<lfloor>1 / a\<rfloor> in if pow2 (1 - b) \<le> a then 1 - b else - b))"

definition roundTiesToEven :: "real \<Rightarrow> int" where
  "roundTiesToEven q =
     (let f = \<lfloor>q\<rfloor>; r = q - of_int f
      in if r < 1 / 2 then f else if 1 / 2 < r then f + 1 else if even f then f else f + 1)"

definition to_double :: "bool \<Rightarrow> real \<Rightarrow> jsnum" where
  "to_double neg x =
     (if x = 0 then zero neg
      else
        (let a = \<bar>x\<bar>;
             e = max (binade a) (- 1022);
             ulp = pow2 (e - 52);
             y = of_int (roundTiesToEven (a / ulp)) * ulp
         in if pow2 1024 \<le> y then infinity (x < 0)
            else if y = 0 then zero (x < 0)
            else Fin (if 0 < x then y else - y)))"

text \<open>
  \<^verbatim>\<open>a - b\<close>. An exact zero difference is the positive zero, but for the negative zero
  less the positive zero.
\<close>

fun jsub :: "jsnum \<Rightarrow> jsnum \<Rightarrow> jsnum" where
  "jsub NaN _ = NaN"
| "jsub _ NaN = NaN"
| "jsub PosInf PosInf = NaN"
| "jsub NegInf NegInf = NaN"
| "jsub PosInf _ = PosInf"
| "jsub NegInf _ = NegInf"
| "jsub _ PosInf = NegInf"
| "jsub _ NegInf = PosInf"
| "jsub x y = to_double (x = NegZero \<and> y = Fin 0) (val x - val y)"

text \<open>\<^verbatim>\<open>a / b\<close> and \<^verbatim>\<open>a * b\<close>. The sign of the result is the product of the signs.\<close>

fun jdiv :: "jsnum \<Rightarrow> jsnum \<Rightarrow> jsnum" where
  "jdiv NaN _ = NaN"
| "jdiv _ NaN = NaN"
| "jdiv PosInf PosInf = NaN"
| "jdiv PosInf NegInf = NaN"
| "jdiv NegInf PosInf = NaN"
| "jdiv NegInf NegInf = NaN"
| "jdiv PosInf y = infinity (negative y)"
| "jdiv NegInf y = infinity (\<not> negative y)"
| "jdiv x PosInf = zero (negative x)"
| "jdiv x NegInf = zero (\<not> negative x)"
| "jdiv x y =
     (if val y = 0
      then (if val x = 0 then NaN else infinity (negative x \<noteq> negative y))
      else to_double (negative x \<noteq> negative y) (val x / val y))"

fun jmul :: "jsnum \<Rightarrow> jsnum \<Rightarrow> jsnum" where
  "jmul NaN _ = NaN"
| "jmul _ NaN = NaN"
| "jmul PosInf PosInf = PosInf"
| "jmul PosInf NegInf = NegInf"
| "jmul NegInf PosInf = NegInf"
| "jmul NegInf NegInf = PosInf"
| "jmul PosInf y = (if val y = 0 then NaN else infinity (negative y))"
| "jmul NegInf y = (if val y = 0 then NaN else infinity (\<not> negative y))"
| "jmul x PosInf = (if val x = 0 then NaN else infinity (negative x))"
| "jmul x NegInf = (if val x = 0 then NaN else infinity (\<not> negative x))"
| "jmul x y = to_double (negative x \<noteq> negative y) (val x * val y)"

text \<open>\<^verbatim>\<open>a < b\<close>; every comparison with NaN is false, and the two zeros are equal.\<close>

fun jless :: "jsnum \<Rightarrow> jsnum \<Rightarrow> bool" where
  "jless NaN _ = False"
| "jless _ NaN = False"
| "jless PosInf _ = False"
| "jless _ NegInf = False"
| "jless NegInf _ = True"
| "jless _ PosInf = True"
| "jless x y = (val x < val y)"

definition jgreater :: "jsnum \<Rightarrow> jsnum \<Rightarrow> bool" where
  "jgreater a b = jless b a"

text \<open>ToBoolean on a number: the zeros and NaN are falsy.\<close>

fun truthy :: "jsnum \<Rightarrow> bool" where
  "truthy (Fin a) = (a \<noteq> 0)"
| "truthy NegZero = False"
| "truthy NaN = False"
| "truthy _ = True"

text \<open>
  \<^verbatim>\<open>Math.round\<close>: the nearest integer, a tie going up; the negative zero for a negative
  number that rounds to zero. The integer nearest to a double is a double, so nothing
  is rounded again.
\<close>

fun Math_round :: "jsnum \<Rightarrow> jsnum" where
  "Math_round (Fin a) =
     (if \<lfloor>a + 1 / 2\<rfloor> = 0 \<and> a < 0 then NegZero else Fin (of_int \<lfloor>a + 1 / 2\<rfloor>))"
| "Math_round x = x"

text \<open>
  \<^verbatim>\<open>Math.max(...xs)\<close> and \<^verbatim>\<open>Math.min(...xs)\<close>: NaN as soon as one argument is
  NaN, \<^verbatim>\<open>-Infinity\<close> and \<^verbatim>\<open>Infinity\<close> on no argument, and the positive zero above the
  negative one.
\<close>

definition jmax2 :: "jsnum \<Rightarrow> jsnum \<Rightarrow> jsnum" where
  "jmax2 a b =
     (if a = NaN \<or> b = NaN then NaN
      else if jless a b then b else if jless b a then a
      else if a = NegZero then b else a)"

definition jmin2 :: "jsnum \<Rightarrow> jsnum \<Rightarrow> jsnum" where
  "jmin2 a b =
     (if a = NaN \<or> b = NaN then NaN
      else if jless b a then b else if jless a b then a
      else if b = NegZero then b else a)"

definition Math_max :: "jsnum list \<Rightarrow> jsnum" where
  "Math_max xs = foldl jmax2 NegInf xs"

definition Math_min :: "jsnum list \<Rightarrow> jsnum" where
  "Math_min xs = foldl jmin2 PosInf xs"

subsection \<open>Strings and arrays\<close>


text \<open>
  A JavaScript string is a sequence of UTF-16 code units. \<^verbatim>\<open>arr[i]\<close> is
  \<^verbatim>\<open>undefined\<close> out of range.
\<close>

type_synonym code_unit = "16 word"
type_synonym js_string = "code_unit list"

definition lit :: "string \<Rightarrow> js_string" where
  "lit s = map (\<lambda>c. of_nat (of_char c)) s"

definition nth_opt :: "'a list \<Rightarrow> nat \<Rightarrow> 'a option" where
  "nth_opt xs i = (if i < length xs then Some (xs ! i) else None)"

section \<open>Insight Engine (stockInsights.service.ts)\<close>

text \<open>
  The records follow the interfaces of the source. A field name that two records would
  share, or that is a keyword, carries a mark: \<open>open'\<close>, \<open>trend_percentage\<close>,
  \<open>latestVolume\<close>, \<open>hl_high52Week\<close> and \<open>hl_low52Week\<close> here, \<open>res_symbol\<close> in the result
  of the fetcher. An optional field is an \<open>option\<close>.
\<close>

record NormalizedDailyData =
  date :: js_string
  open' :: jsnum
  high :: jsnum
  low :: jsnum
  close :: jsnum
  volume :: jsnum

record Change =
  absolute :: jsnum
  percentage :: jsnum

datatype Direction = Up | Down | Flat

record Trend =
  direction :: Direction
  trend_percentage :: jsnum

record HighLow =
  hl_high52Week :: "jsnum option"
  hl_low52Week :: "jsnum option"

record AlphaVantageOverview =
  PERatio :: js_string

record StockInsights =
  symbol :: js_string
  latestPrice :: jsnum
  latestDate :: js_string
  dayChange :: Change
  trend7Day :: Trend
  trend30Day :: Trend
  latestVolume :: jsnum
  high52Week :: "jsnum option"
  low52Week :: "jsnum option"
  peRatio :: "jsnum option"

datatype error = Error js_string

definition roundToTwo :: "jsnum \<Rightarrow> jsnum" where
  "roundToTwo num = jdiv (Math_round (jmul num (Fin 100))) (Fin 100)"

definition calculateDayChange :: "NormalizedDailyData \<Rightarrow> NormalizedDailyData option \<Rightarrow> Change" where
  "calculateDayChange latest previous =
     (case previous of
        None \<Rightarrow> \<lparr>absolute = Fin 0, percentage = Fin 0\<rparr>
      | Some prev \<Rightarrow>
          (let absolute = jsub (close latest) (close prev);
               percentage = jmul (jdiv absolute (close prev)) (Fin 100)
           in \<lparr>absolute = roundToTwo absolute, percentage = roundToTwo percentage\<rparr>))"

text \<open>
  \<^verbatim>\<open>dailyData[days]?.close || dailyData[dailyData.length - 1].close\<close>: the right
  operand is taken when the left one is \<^verbatim>\<open>undefined\<close>, zero or NaN.
\<close>

definition pastPrice :: "NormalizedDailyData list \<Rightarrow> nat \<Rightarrow> jsnum" where
  "pastPrice dailyData days =
     (case nth_opt dailyData days of
        Some d \<Rightarrow> (if truthy (close d) then close d
                   else close (dailyData ! (length dailyData - 1)))
      | None \<Rightarrow> close (dailyData ! (length dailyData - 1)))"

definition calculateTrend :: "NormalizedDailyData list \<Rightarrow> nat \<Rightarrow> Trend" where
  "calculateTrend dailyData days =
     (if length dailyData < days + 1 then \<lparr>direction = Flat, trend_percentage = Fin 0\<rparr>
      else
        (let currentPrice = close (dailyData ! 0);
             past = pastPrice dailyData days;
             change = jsub currentPrice past;
             percentage = jmul (jdiv change past) (Fin 100);
             direction = (if jgreater percentage (Fin (1 / 2)) then Up
                          else if jless percentage (Fin (- (1 / 2))) then Down
                          else Flat)
         in \<lparr>direction = direction, trend_percentage = roundToTwo percentage\<rparr>))"

definition calculate52WeekHighLow :: "NormalizedDailyData list \<Rightarrow> HighLow" where
  "calculate52WeekHighLow dailyData =
     (let tradingDays = min 252 (length dailyData)
      in if tradingDays < 30 then \<lparr>hl_high52Week = None, hl_low52Week = None\<rparr>
         else
           (let relevantData = take tradingDays dailyData;
                h = Math_max (map high relevantData);
                l = Math_min (map low relevantData)
            in \<lparr>hl_high52Week = Some (roundToTwo h), hl_low52Week = Some (roundToTwo l)\<rparr>))"

text \<open>
  \<^verbatim>\<open>calculateInsights\<close> throws on an empty series. \<^verbatim>\<open>parseFloat\<close> is a built-in of
  the language and is a parameter here; an absent overview is \<open>None\<close>, and the
  empty string is the falsy \<^verbatim>\<open>PERatio\<close>.
\<close>

definition calculateInsights ::
  "(js_string \<Rightarrow> jsnum) \<Rightarrow> js_string \<Rightarrow> NormalizedDailyData list \<Rightarrow>
   AlphaVantageOverview option \<Rightarrow> error + StockInsights" where
  "calculateInsights parseFloat symb dailyData overview =
     (if length dailyData = 0
      then Inl (Error (lit ''No data available to calculate insights''))
      else
        (let latest = dailyData ! 0;
             previous = nth_opt dailyData 1;
             dc = calculateDayChange latest previous;
             t7 = calculateTrend dailyData 7;
             t30 = calculateTrend dailyData 30;
             hl = calculate52WeekHighLow dailyData;
             pe = (case overview of
                     None \<Rightarrow> None
                   | Some ov \<Rightarrow>
                       (if PERatio ov \<noteq> [] \<and> PERatio ov \<noteq> lit ''None''
                        then Some (parseFloat (PERatio ov)) else None))
         in Inr \<lparr>symbol = symb, latestPrice = close latest, latestDate = date latest,
                 dayChange = dc, trend7Day = t7, trend30Day = t30,
                 latestVolume = volume latest,
                 high52Week = hl_high52Week hl, low52Week = hl_low52Week hl,
                 peRatio = pe\<rparr>))"





subsection \<open>Example data\<close>

text \<open>
  \<open>parseDigits\<close> is the value of \<^verbatim>\<open>parseFloat\<close> on a non-empty string of decimal digits,
  and the instance of that parameter in the examples.
\<close>

definition is_digit :: "code_unit \<Rightarrow> bool" where
  "is_digit c = (0x30 \<le> c \<and> c \<le> 0x39)"

definition parseDigits :: "js_string \<Rightarrow> jsnum" where
  "parseDigits s =
     (if s \<noteq> [] \<and> list_all is_digit s
      then to_double False (real (foldl (\<lambda>n c. 10 * n + (unat c - 48)) 0 s)) else NaN)"

definition point :: "string \<Rightarrow> real \<Rightarrow> NormalizedDailyData" where
  "point d c = \<lparr>date = lit d, open' = Fin c, high = Fin (c + 1), low = Fin (c - 1),
                close = Fin c, volume = Fin 1000\<rparr>"

definition series8 :: "NormalizedDailyData list" where
  "series8 = [point ''2024-01-12'' 201, point ''2024-01-11'' 199, point ''2024-01-10'' 198,
              point ''2024-01-09'' 197, point ''2024-01-08'' 196, point ''2024-01-05'' 195,
              point ''2024-01-04'' 194, point ''2024-01-03'' 200]"

definition flat8 :: "NormalizedDailyData list" where
  "flat8 = [point ''2024-01-12'' 50, point ''2024-01-11'' 50, point ''2024-01-10'' 50,
            point ''2024-01-09'' 50, point ''2024-01-08'' 50, point ''2024-01-05'' 50,
            point ''2024-01-04'' 50, point ''2024-01-03'' 50]"

definition rise8 :: "NormalizedDailyData list" where
  "rise8 = [point ''2024-01-12'' 183, point ''2024-01-11'' 160, point ''2024-01-10'' 176,
            point ''2024-01-09'' 171, point ''2024-01-08'' 170, point ''2024-01-05'' 166,
            point ''2024-01-04'' 163, point ''2024-01-03'' 160]"

text \<open>
  \<open>quote72\<close> is the double nearest to 72.065, the value of \<^verbatim>\<open>parseFloat('72.0650')\<close>;
  \<open>steady30\<close> is thirty days at that price. \<open>extreme2\<close> is two days whose closes are
  the doubles 2^1023 and 1.
\<close>

definition quote72 :: real where
  "quote72 = 1267780887290839 / 17592186044416"

definition steady :: "nat \<Rightarrow> NormalizedDailyData" where
  "steady i = \<lparr>date = lit ''2024-01-'' @ [of_nat (48 + i div 10), of_nat (48 + i mod 10)],
               open' = Fin quote72, high = Fin quote72, low = Fin quote72,
               close = Fin quote72, volume = Fin 1000\<rparr>"

definition steady30 :: "NormalizedDailyData list" where
  "steady30 = map steady (rev [1..<31])"


definition jan :: "nat \<Rightarrow> js_string" where
  "jan i = lit ''2024-01-'' @ [of_nat (48 + i div 10), of_nat (48 + i mod 10)]"

definition day :: "nat \<Rightarrow> NormalizedDailyData" where
  "day i = \<lparr>date = jan i, open' = Fin (real i), high = Fin (real i + 1 / 2),
            low = Fin (real i - 1 / 2), close = Fin (real i), volume = Fin 1000\<rparr>"

definition january :: "nat \<Rightarrow> NormalizedDailyData list" where
  "january n = map day (rev [1..<Suc n])"

definition january_highs :: "real list" where
  "january_highs = map (\<lambda>i. real i + 1 / 2) (rev [1..<31])"

definition january_lows :: "real list" where
  "january_lows = map (\<lambda>i. real i - 1 / 2) (rev [1..<31])"

text \<open>A finite number of magnitude at most \<open>2^k\<close>.\<close>

definition fin_within :: "nat \<Rightarrow> jsnum \<Rightarrow> bool" where
  "fin_within k x = (is_finite x \<and> \<bar>val x\<bar> \<le> 2 ^ k)"

section \<open>Symbol validation (alphaVantage.service.ts)\<close>

text \<open>
  The regular expression \<^verbatim>\<open>/^[A-Z0-9.]{1,10}$/\<close> has no flag, so it works on code units,
  \<^verbatim>\<open>^\<close> anchors the match at index 0 and \<^verbatim>\<open>$\<close> matches at the end of the input only.
  A character class is a list of inclusive ranges. \<open>match_repeat cls m n k s\<close> matches
  between \<open>m\<close> and \<open>n\<close> characters of the class at the head of \<open>s\<close>, the longest run
  first, and then what follows the quantifier, \<open>k\<close>, on the rest.
\<close>

type_synonym char_class = "(code_unit \<times> code_unit) list"

fun in_range :: "code_unit \<Rightarrow> code_unit \<times> code_unit \<Rightarrow> bool" where
  "in_range c (lo, hi) = (lo \<le> c \<and> c \<le> hi)"

definition in_class :: "char_class \<Rightarrow> code_unit \<Rightarrow> bool" where
  "in_class cls c = list_ex (in_range c) cls"

fun match_repeat :: "char_class \<Rightarrow> nat \<Rightarrow> nat \<Rightarrow> (js_string \<Rightarrow> bool) \<Rightarrow> js_string \<Rightarrow> bool" where
  "match_repeat cls 0 0 k s = k s"
| "match_repeat cls 0 (Suc n) k s =
     (case s of [] \<Rightarrow> k s | c # cs \<Rightarrow> (in_class cls c \<and> match_repeat cls 0 n k cs) \<or> k s)"
| "match_repeat cls (Suc m) 0 k s = False"
| "match_repeat cls (Suc m) (Suc n) k s =
     (case s of [] \<Rightarrow> False | c # cs \<Rightarrow> in_class cls c \<and> match_repeat cls m n k cs)"

definition at_end :: "js_string \<Rightarrow> bool" where
  "at_end s = (s = [])"

definition symbolRegex_class :: char_class where
  "symbolRegex_class = [(0x41, 0x5A), (0x30, 0x39), (0x2E, 0x2E)]"

definition symbolRegex_test :: "js_string \<Rightarrow> bool" where
  "symbolRegex_test s = match_repeat symbolRegex_class 1 10 at_end s"

text \<open>
  \<^verbatim>\<open>String.prototype.toUpperCase\<close> is a built-in of the language, with the case mapping
  of Unicode behind it (it may change the length of a string), and is a parameter here.
\<close>

definition validateSymbol :: "(js_string \<Rightarrow> js_string) \<Rightarrow> js_string \<Rightarrow> bool" where
  "validateSymbol toUpperCase symb = symbolRegex_test (toUpperCase symb)"

text \<open>
  The specification's words: 1 to 10 characters drawn from the uppercase letters A to Z,
  the digits and the dot.
\<close>

definition symbol_char :: "code_unit \<Rightarrow> bool" where
  "symbol_char c = ((0x41 \<le> c \<and> c \<le> 0x5A) \<or> (0x30 \<le> c \<and> c \<le> 0x39) \<or> c = 0x2E)"

definition well_formed_symbol :: "js_string \<Rightarrow> bool" where
  "well_formed_symbol s = (1 \<le> length s \<and> length s \<le> 10 \<and> list_all symbol_char s)"

text \<open>
  \<open>asciiUpper\<close> is \<^verbatim>\<open>toUpperCase\<close> on strings of ASCII characters, and the instance of that
  parameter in the examples.
\<close>

definition asciiUpperChar :: "code_unit \<Rightarrow> code_unit" where
  "asciiUpperChar c = (if 0x61 \<le> c \<and> c \<le> 0x7A then c - 0x20 else c)"

definition asciiUpper :: "js_string \<Rightarrow> js_string" where
  "asciiUpper s = map asciiUpperChar s"

section \<open>Rate-Limited Dispatcher (alphaVantage.service.ts)\<close>

text \<open>
  The dispatcher runs on a single-threaded event loop, which a virtual clock in
  milliseconds makes deterministic. An entry of \<^verbatim>\<open>requestQueue\<close> is the wrapper that
  \<^verbatim>\<open>queueRequest\<close> builds around \<^verbatim>\<open>requestFn\<close>: it carries the promise returned to the
  caller and, for the provider call it makes, how long that call takes and how it
  settles (\<open>Inl\<close> a failure, \<open>Inr\<close> a result). \<^verbatim>\<open>processQueue\<close> is suspended at one of
  its two \<^verbatim>\<open>await\<close>s or is not running; \<open>started\<close> and \<open>settled\<close> record, in order, when
  each provider call began and how each promise was settled.
\<close>

record 'a job =
  promise :: nat
  duration :: nat
  outcome :: "error + 'a"

datatype 'a continuation = Idle | AwaitRequest "'a job" nat | AwaitDelay nat

datatype 'a settlement = Resolved 'a | Rejected error

record 'a dispatcher =
  requestQueue :: "'a job list"
  isProcessingQueue :: bool
  now :: nat
  pending :: "'a continuation"
  nextPromise :: nat
  started :: "(nat \<times> nat) list"
  settled :: "(nat \<times> 'a settlement) list"

definition minRequestInterval :: nat where
  "minRequestInterval = 12000"

definition initial :: "'a dispatcher" where
  "initial = \<lparr>requestQueue = [], isProcessingQueue = False, now = 0, pending = Idle,
              nextPromise = 0, started = [], settled = []\<rparr>"

text \<open>
  The \<^verbatim>\<open>while\<close> loop of \<^verbatim>\<open>processQueue\<close> from its test to the next \<^verbatim>\<open>await\<close>: on an
  empty queue the loop ends and the flag is cleared; otherwise the head is shifted and
  called, which starts its provider call at once.
\<close>

definition drain :: "'a dispatcher \<Rightarrow> 'a dispatcher" where
  "drain s =
     (case requestQueue s of
        [] \<Rightarrow> s\<lparr>isProcessingQueue := False, pending := Idle\<rparr>
      | request # rest \<Rightarrow>
          s\<lparr>requestQueue := rest,
            pending := AwaitRequest request (now s + duration request),
            started := started s @ [(promise request, now s)]\<rparr>)"

definition processQueue :: "'a dispatcher \<Rightarrow> 'a dispatcher" where
  "processQueue s =
     (if isProcessingQueue s \<or> length (requestQueue s) = 0 then s
      else drain (s\<lparr>isProcessingQueue := True\<rparr>))"

definition queueRequest :: "nat \<Rightarrow> error + 'a \<Rightarrow> 'a dispatcher \<Rightarrow> 'a dispatcher" where
  "queueRequest d out s =
     processQueue
       (s\<lparr>requestQueue := requestQueue s @ [\<lparr>promise = nextPromise s, duration = d, outcome = out\<rparr>],
          nextPromise := nextPromise s + 1\<rparr>)"

text \<open>
  The wrapper of \<^verbatim>\<open>queueRequest\<close>: \<^verbatim>\<open>resolve(result)\<close> when \<^verbatim>\<open>requestFn\<close> succeeds,
  \<^verbatim>\<open>reject(error)\<close> when it throws; \<open>own\<close> is the settlement a job gives its promise.
\<close>

definition wrapper :: "error + 'a \<Rightarrow> 'a settlement" where
  "wrapper out = (case out of Inr result \<Rightarrow> Resolved result | Inl e \<Rightarrow> Rejected e)"

definition own :: "'a job \<Rightarrow> nat \<times> 'a settlement" where
  "own j = (promise j, wrapper (outcome j))"

text \<open>
  The provider call of \<open>request\<close> has settled: the wrapper settles its own promise, and
  \<^verbatim>\<open>processQueue\<close> resumes after \<^verbatim>\<open>await request()\<close>, where it waits for the interval
  only if the queue is not empty.
\<close>

definition after_request :: "'a job \<Rightarrow> 'a dispatcher \<Rightarrow> 'a dispatcher" where
  "after_request request s =
     (let s1 = s\<lparr>settled := settled s @ [(promise request, wrapper (outcome request))]\<rparr>
      in if length (requestQueue s1) > 0
         then s1\<lparr>pending := AwaitDelay (now s1 + minRequestInterval)\<rparr>
         else drain s1)"

text \<open>The event loop runs until the clock shows \<open>t\<close>, waking \<^verbatim>\<open>processQueue\<close> when due.\<close>

function advance :: "nat \<Rightarrow> 'a dispatcher \<Rightarrow> 'a dispatcher" where
  "advance t s =
     (case pending s of
        Idle \<Rightarrow> s\<lparr>now := t\<rparr>
      | AwaitRequest request fin \<Rightarrow>
          (if fin \<le> t then advance t (after_request request (s\<lparr>now := fin\<rparr>))
           else s\<lparr>now := t\<rparr>)
      | AwaitDelay until \<Rightarrow>
          (if until \<le> t then advance t (drain (s\<lparr>now := until\<rparr>))
           else s\<lparr>now := t\<rparr>))"
  by pat_completeness auto
termination
  by (relation "measure (\<lambda>(t, s). 2 * length (requestQueue s) +
        (case pending s of Idle \<Rightarrow> 0 | AwaitRequest r f \<Rightarrow> 2 | AwaitDelay u \<Rightarrow> 1))")
     (auto simp: after_request_def drain_def Let_def split: list.splits)

declare advance.simps [simp del]

text \<open>
  What happens to the dispatcher: a caller submits a request function, or time passes.
\<close>

datatype 'a event = Submit nat "error + 'a" | Elapse nat

fun step :: "'a event \<Rightarrow> 'a dispatcher \<Rightarrow> 'a dispatcher" where
  "step (Submit d out) s = queueRequest d out s"
| "step (Elapse dt) s = advance (now s + dt) s"

definition run :: "'a event list \<Rightarrow> 'a dispatcher" where
  "run evs = fold step evs initial"

text \<open>The jobs that a sequence of events submits, in submission order.\<close>

fun submissions_from :: "nat \<Rightarrow> 'a event list \<Rightarrow> 'a job list" where
  "submissions_from p [] = []"
| "submissions_from p (Submit d out # evs) =
     \<lparr>promise = p, duration = d, outcome = out\<rparr> # submissions_from (Suc p) evs"
| "submissions_from p (Elapse dt # evs) = submissions_from p evs"

definition submissions :: "'a event list \<Rightarrow> 'a job list" where
  "submissions evs = submissions_from 0 evs"

text \<open>The time a queue takes once its head has started, and when the dispatcher falls idle.\<close>

fun drain_time :: "'a job list \<Rightarrow> nat" where
  "drain_time [] = 0"
| "drain_time [j] = duration j"
| "drain_time (j # k # rest) = duration j + minRequestInterval + drain_time (k # rest)"

definition finish_time :: "'a dispatcher \<Rightarrow> nat" where
  "finish_time s =
     (case pending s of
        Idle \<Rightarrow> now s
      | AwaitRequest request fin \<Rightarrow>
          (if requestQueue s = [] then fin
           else fin + minRequestInterval + drain_time (requestQueue s))
      | AwaitDelay until \<Rightarrow> until + drain_time (requestQueue s))"

text \<open>
  The state of the dispatcher against the jobs \<open>js\<close> submitted so far: the started
  calls are a prefix of \<open>js\<close>, the queue is the rest, and the settled promises are
  those of the started jobs, but for the one in flight.
\<close>

definition dispatcher_inv :: "'a job list \<Rightarrow> 'a dispatcher \<Rightarrow> bool" where
  "dispatcher_inv js s =
     (let k = length (started s) in
        k \<le> length js \<and>
        requestQueue s = drop k js \<and>
        map fst (started s) = map promise (take k js) \<and>
        nextPromise s = length js \<and>
        (case pending s of
           Idle \<Rightarrow> \<not> isProcessingQueue s \<and> requestQueue s = [] \<and>
                  settled s = map own (take k js)
         | AwaitRequest request fin \<Rightarrow>
             isProcessingQueue s \<and> 0 < k \<and> request = js ! (k - 1) \<and>
             settled s = map own (take (k - 1) js)
         | AwaitDelay until \<Rightarrow>
             isProcessingQueue s \<and> requestQueue s \<noteq> [] \<and>
             settled s = map own (take k js)))"

text \<open>
  The starts still to come once the dispatcher is left alone: the queue is served in
  order, each call starting one interval after the call before it has settled.
\<close>

fun sched :: "nat \<Rightarrow> 'a job list \<Rightarrow> (nat \<times> nat) list" where
  "sched u [] = []"
| "sched u (j # q) = (promise j, u) # sched (u + duration j + minRequestInterval) q"

definition future_starts :: "'a dispatcher \<Rightarrow> (nat \<times> nat) list" where
  "future_starts s =
     (case pending s of
        Idle \<Rightarrow> []
      | AwaitRequest request fin \<Rightarrow>
          (if requestQueue s = [] then [] else sched (fin + minRequestInterval) (requestQueue s))
      | AwaitDelay until \<Rightarrow> sched until (requestQueue s))"

text \<open>
  A burst: requests, each with the duration and the outcome of its provider call,
  submitted one after the other with no time passing. \<open>start_times p t ds\<close> is the
  timetable of calls of durations \<open>ds\<close>, the first for promise \<open>p\<close> at time \<open>t\<close>.
\<close>

fun burst :: "(nat \<times> (error + 'a)) list \<Rightarrow> 'a event list" where
  "burst [] = []"
| "burst ((d, out) # reqs) = Submit d out # burst reqs"

fun start_times :: "nat \<Rightarrow> nat \<Rightarrow> nat list \<Rightarrow> (nat \<times> nat) list" where
  "start_times p t [] = []"
| "start_times p t (d # ds) = (p, t) # start_times (Suc p) (t + d + minRequestInterval) ds"

text \<open>A burst of three requests whose second fails, and a schedule with time passing.\<close>

definition example_requests :: "(nat \<times> (error + js_string)) list" where
  "example_requests =
     [(1000, Inr (lit ''AAPL'')), (2000, Inl (Error (lit ''HTTP error! status: 500''))),
      (500, Inr (lit ''MSFT''))]"

definition example_events :: "js_string event list" where
  "example_events =
     [Submit 500 (Inl (Error (lit ''HTTP error! status: 500''))), Elapse 100,
      Submit 300 (Inr (lit ''MSFT''))]"


section \<open>Cache-Aside Fetcher (alphaVantage.service.ts, supabase.service.ts)\<close>

subsection \<open>Provider payload and normalisation\<close>

text \<open>
  The keys of \<^verbatim>\<open>TimeSeriesData\<close> are dates, which are not array indices, so
  \<^verbatim>\<open>Object.entries\<close> lists them in insertion order: the object is an association list.
\<close>

record DailyValues =
  v_open :: js_string
  v_high :: js_string
  v_low :: js_string
  v_close :: js_string
  v_volume :: js_string

record MetaData =
  Information :: js_string
  Symbol :: js_string
  LastRefreshed :: js_string
  OutputSize :: js_string
  TimeZone :: js_string

record AlphaVantageResponse =
  metaData :: MetaData
  timeSeries :: "(js_string \<times> DailyValues) list"

record StockDataResult =
  res_symbol :: js_string
  lastRefreshed :: js_string
  dailyData :: "NormalizedDailyData list"
  fromCache :: bool

text \<open>
  \<^verbatim>\<open>parseFloat\<close> and \<^verbatim>\<open>new Date(d).getTime()\<close> are built-ins of the language and are
  parameters here. \<^verbatim>\<open>Array.prototype.sort\<close> is stable, and the comparator
  \<^verbatim>\<open>time(b) - time(a)\<close> puts the most recent date first (dates are taken to be valid,
  so that no time is NaN).
\<close>

fun normalizeEntry :: "(js_string \<Rightarrow> jsnum) \<Rightarrow> js_string \<times> DailyValues \<Rightarrow> NormalizedDailyData" where
  "normalizeEntry parseFloat (d, values) =
     \<lparr>date = d, open' = parseFloat (v_open values), high = parseFloat (v_high values),
      low = parseFloat (v_low values), close = parseFloat (v_close values),
      volume = parseFloat (v_volume values)\<rparr>"

definition normalizeTimeSeriesData ::
  "(js_string \<Rightarrow> jsnum) \<Rightarrow> (js_string \<Rightarrow> int) \<Rightarrow> (js_string \<times> DailyValues) list \<Rightarrow>
   NormalizedDailyData list" where
  "normalizeTimeSeriesData parseFloat getTime ts =
     sort_key (\<lambda>a. - getTime (date a)) (map (normalizeEntry parseFloat) ts)"

subsection \<open>Cache Store (supabase.service.ts)\<close>

text \<open>
  The table \<^verbatim>\<open>stock_data_cache\<close> has one row for each pair of symbol and data type
  (its \<^verbatim>\<open>UNIQUE\<close> constraint), with the raw payload and the time it was fetched, in
  milliseconds. The Supabase client is outside the repository: it answers a query with a
  record of \<^verbatim>\<open>data\<close> and \<^verbatim>\<open>error\<close>, and a query may fail for reasons of its own (the
  network, the row-level security of the table), which is the \<open>fault\<close> below. On no
  row, \<^verbatim>\<open>.single()\<close> answers with the error code \<^verbatim>\<open>PGRST116\<close>.
\<close>

record CacheRow =
  row_data :: AlphaVantageResponse
  fetched_at :: int

type_synonym cache_store = "js_string \<times> js_string \<Rightarrow> CacheRow option"

record PostgrestError =
  code :: js_string
  message :: js_string

record 'a PostgrestResponse =
  data :: "'a option"
  error :: "PostgrestError option"

definition no_rows :: PostgrestError where
  "no_rows = \<lparr>code = lit ''PGRST116'', message = lit ''no rows returned''\<rparr>"

definition select_single ::
  "cache_store \<Rightarrow> PostgrestError option \<Rightarrow> js_string \<Rightarrow> js_string \<Rightarrow> int \<Rightarrow>
   CacheRow PostgrestResponse" where
  "select_single store fault symb dataType since =
     (case fault of
        Some e \<Rightarrow> \<lparr>data = None, error = Some e\<rparr>
      | None \<Rightarrow>
          (case store (symb, dataType) of
             None \<Rightarrow> \<lparr>data = None, error = Some no_rows\<rparr>
           | Some row \<Rightarrow>
               (if since \<le> fetched_at row then \<lparr>data = Some row, error = None\<rparr>
                else \<lparr>data = None, error = Some no_rows\<rparr>)))"

definition upsert ::
  "cache_store \<Rightarrow> PostgrestError option \<Rightarrow> js_string \<Rightarrow> js_string \<Rightarrow> CacheRow \<Rightarrow>
   cache_store \<times> PostgrestError option" where
  "upsert store fault symb dataType row =
     (case fault of
        Some e \<Rightarrow> (store, Some e)
      | None \<Rightarrow> (store((symb, dataType) \<mapsto> row), None))"

subsection \<open>Dates (ECMAScript, Date objects)\<close>

text \<open>
  A time value is a number of milliseconds since the epoch, in UTC. \<^verbatim>\<open>getHours\<close> and
  \<^verbatim>\<open>setHours\<close> work on local time: \<open>LocalTZA t isUTC\<close> is the offset of the time
  zone of the host, in milliseconds, at the UTC time \<open>t\<close> when \<open>isUTC\<close> and at the local
  time \<open>t\<close> otherwise; it is a parameter. The division and the modulo of the language
  specification are the floored ones, as \<open>div\<close> and \<open>mod\<close> on \<open>int\<close>. The clock is
  taken within the range of time values less a few days, so that \<^verbatim>\<open>TimeClip\<close> leaves
  the result of \<^verbatim>\<open>setHours\<close> as it is.
\<close>

type_synonym time_zone = "int \<Rightarrow> bool \<Rightarrow> int"

definition msPerSecond :: int where "msPerSecond = 1000"
definition msPerMinute :: int where "msPerMinute = 60000"
definition msPerHour :: int where "msPerHour = 3600000"
definition msPerDay :: int where "msPerDay = 86400000"

definition Day :: "int \<Rightarrow> int" where
  "Day t = t div msPerDay"

definition HourFromTime :: "int \<Rightarrow> int" where
  "HourFromTime t = (t div msPerHour) mod 24"

definition MinFromTime :: "int \<Rightarrow> int" where
  "MinFromTime t = (t div msPerMinute) mod 60"

definition SecFromTime :: "int \<Rightarrow> int" where
  "SecFromTime t = (t div msPerSecond) mod 60"

definition msFromTime :: "int \<Rightarrow> int" where
  "msFromTime t = t mod msPerSecond"

definition MakeTime :: "int \<Rightarrow> int \<Rightarrow> int \<Rightarrow> int \<Rightarrow> int" where
  "MakeTime hour minute sec ms = hour * msPerHour + minute * msPerMinute + sec * msPerSecond + ms"

definition MakeDate :: "int \<Rightarrow> int \<Rightarrow> int" where
  "MakeDate days time = days * msPerDay + time"

definition LocalTime :: "time_zone \<Rightarrow> int \<Rightarrow> int" where
  "LocalTime tza t = t + tza t True"

definition UTC :: "time_zone \<Rightarrow> int \<Rightarrow> int" where
  "UTC tza t = t - tza t False"

definition getHours :: "time_zone \<Rightarrow> int \<Rightarrow> int" where
  "getHours tza tv = HourFromTime (LocalTime tza tv)"

definition setHours :: "time_zone \<Rightarrow> int \<Rightarrow> int \<Rightarrow> int" where
  "setHours tza tv hour =
     (let t = LocalTime tza tv;
          date = MakeDate (Day t) (MakeTime hour (MinFromTime t) (SecFromTime t) (msFromTime t))
      in UTC tza date)"

subsection \<open>The read path\<close>

text \<open>
  What the fetcher does not decide: the built-ins, the time zone of the host, the clock
  at the cache read and at the cache write, the faults of the two queries, and how the
  promise of \<^verbatim>\<open>queueRequest\<close> settles, which by the dispatcher is how the provider call
  settled.
\<close>

record environment =
  toUpperCase :: "js_string \<Rightarrow> js_string"
  parseFloat :: "js_string \<Rightarrow> jsnum"
  getTime :: "js_string \<Rightarrow> int"
  LocalTZA :: time_zone
  clock_read :: int
  clock_write :: int
  read_fault :: "PostgrestError option"
  write_fault :: "PostgrestError option"
  fetched :: "AlphaVantageResponse settlement"

text \<open>
  \<^verbatim>\<open>getCachedStockData\<close>, with the lines it writes to the console. The cutoff is
  \<^verbatim>\<open>new Date()\<close> after \<^verbatim>\<open>setHours(getHours() - 24)\<close>: the instant whose local time is
  24 hours before the local time of the read. \<^verbatim>\<open>fetched_at\<close> and the cutoff are compared
  as instants. A cached payload is an object, hence truthy in \<^verbatim>\<open>data?.data || null\<close>.
\<close>

definition twentyFourHoursAgo :: "environment \<Rightarrow> int" where
  "twentyFourHoursAgo env =
     setHours (LocalTZA env) (clock_read env) (getHours (LocalTZA env) (clock_read env) - 24)"

definition getCachedStockData ::
  "environment \<Rightarrow> cache_store \<Rightarrow> js_string \<Rightarrow> js_string \<Rightarrow>
   AlphaVantageResponse option \<times> js_string list" where
  "getCachedStockData env store symb dataType =
     (let response = select_single store (read_fault env) (toUpperCase env symb) dataType
                       (twentyFourHoursAgo env)
      in case error response of
           Some e \<Rightarrow>
             (if code e \<noteq> lit ''PGRST116''
              then (None, [lit ''Error fetching cached data: '' @ message e])
              else (map_option row_data (data response), []))
         | None \<Rightarrow> (map_option row_data (data response), []))"

text \<open>\<^verbatim>\<open>cacheStockData\<close> returns normally whether the upsert failed or not.\<close>

definition cacheStockData ::
  "environment \<Rightarrow> cache_store \<Rightarrow> js_string \<Rightarrow> js_string \<Rightarrow> AlphaVantageResponse \<Rightarrow>
   cache_store \<times> js_string list" where
  "cacheStockData env store symb dataType payload =
     (case upsert store (write_fault env) (toUpperCase env symb) dataType
             \<lparr>row_data = payload, fetched_at = clock_write env\<rparr> of
        (store', Some e) \<Rightarrow> (store', [lit ''Error caching stock data: '' @ message e])
      | (store', None) \<Rightarrow> (store', []))"

text \<open>
  \<^verbatim>\<open>getDailyTimeSeries\<close>: what it returns or throws, the symbols of the fetch jobs it
  submitted to \<^verbatim>\<open>queueRequest\<close>, the cache store it leaves, and the console.
\<close>

record fetch_run =
  returned :: "error + StockDataResult"
  dispatched :: "js_string list"
  store_after :: cache_store
  console :: "js_string list"

definition toResult :: "environment \<Rightarrow> AlphaVantageResponse \<Rightarrow> bool \<Rightarrow> StockDataResult" where
  "toResult env payload cached =
     \<lparr>res_symbol = Symbol (metaData payload),
      lastRefreshed = LastRefreshed (metaData payload),
      dailyData = normalizeTimeSeriesData (parseFloat env) (getTime env) (timeSeries payload),
      fromCache = cached\<rparr>"

definition getDailyTimeSeries :: "environment \<Rightarrow> cache_store \<Rightarrow> js_string \<Rightarrow> fetch_run" where
  "getDailyTimeSeries env store symb =
     (let dataType = lit ''TIME_SERIES_DAILY'';
          (cachedData, log1) = getCachedStockData env store symb dataType
      in case cachedData of
           Some cached \<Rightarrow>
             \<lparr>returned = Inr (toResult env cached True),
              dispatched = [],
              store_after = store,
              console = log1 @ [lit ''Using cached data for '' @ symb]\<rparr>
         | None \<Rightarrow>
             (let log2 = log1 @ [lit ''Fetching fresh data for '' @ symb @ lit '' from Alpha Vantage'']
              in case fetched env of
                   Rejected e \<Rightarrow>
                     \<lparr>returned = Inl e, dispatched = [symb], store_after = store, console = log2\<rparr>
                 | Resolved payload \<Rightarrow>
                     (let (store', log3) = cacheStockData env store symb dataType payload
                      in \<lparr>returned = Inr (toResult env payload False),
                          dispatched = [symb],
                          store_after = store',
                          console = log2 @ log3\<rparr>)))"

text \<open>
  Examples: a payload of two days in the order the provider sent them, an environment in
  UTC with no fault in which the provider answers with that payload, and a cache store
  holding the payload fetched a given number of hours before the read. \<open>dateDigits\<close> reads the
  digits of an ISO date as a number, which orders such dates as \<^verbatim>\<open>getTime\<close> does, and
  is the instance of that parameter.
\<close>

definition dateDigits :: "js_string \<Rightarrow> int" where
  "dateDigits s = int (foldl (\<lambda>n c. 10 * n + (unat c - 48)) 0 (filter is_digit s))"

definition example_values :: "string \<Rightarrow> DailyValues" where
  "example_values c =
     \<lparr>v_open = lit c, v_high = lit c, v_low = lit c, v_close = lit c, v_volume = lit ''1000''\<rparr>"

definition example_payload :: AlphaVantageResponse where
  "example_payload =
     \<lparr>metaData = \<lparr>Information = lit ''Daily Prices'', Symbol = lit ''AAPL'',
                  LastRefreshed = lit ''2024-01-03'', OutputSize = lit ''Compact'',
                  TimeZone = lit ''US/Eastern''\<rparr>,
      timeSeries = [(lit ''2024-01-02'', example_values ''100''),
                    (lit ''2024-01-03'', example_values ''101'')]\<rparr>"

definition utcZone :: time_zone where
  "utcZone t isUTC = 0"

definition example_env :: environment where
  "example_env =
     \<lparr>toUpperCase = asciiUpper, parseFloat = parseDigits, getTime = dateDigits,
      LocalTZA = utcZone, clock_read = 1704300000000, clock_write = 1704300001000,
      read_fault = None, write_fault = None, fetched = Resolved example_payload\<rparr>"



definition write_denied :: PostgrestError where
  "write_denied =
     \<lparr>code = lit ''42501'', message = lit ''new row violates row-level security policy''\<rparr>"

definition example_normalized :: "NormalizedDailyData list" where
  "example_normalized =
     [\<lparr>date = lit ''2024-01-03'', open' = Fin 101, high = Fin 101, low = Fin 101,
       close = Fin 101, volume = Fin 1000\<rparr>,
      \<lparr>date = lit ''2024-01-02'', open' = Fin 100, high = Fin 100, low = Fin 100,
       close = Fin 100, volume = Fin 1000\<rparr>]"

text \<open>
  New York in 2024: five hours behind UTC, and four from 2024-03-10T07:00Z (02:00 local,
  which becomes 03:00) to 2024-11-03T06:00Z (02:00 local, which becomes 01:00). At a local
  time that the change skips or repeats, the offset is the one before the change. A host
  in that zone reads the cache at noon of the day of each change; the store holds the
  payload fetched at a given instant.
\<close>

definition newYork2024 :: time_zone where
  "newYork2024 t isUTC =
     (if isUTC
      then (if 1710054000000 \<le> t \<and> t < 1730613600000 then - 4 * msPerHour else - 5 * msPerHour)
      else (if 1710039600000 \<le> t \<and> t < 1730599200000 then - 4 * msPerHour else - 5 * msPerHour))"

definition spring_env :: environment where
  "spring_env = example_env\<lparr>LocalTZA := newYork2024, clock_read := 1710086400000\<rparr>"

definition autumn_env :: environment where
  "autumn_env = example_env\<lparr>LocalTZA := newYork2024, clock_read := 1730653200000\<rparr>"

definition fetched_when :: "int \<Rightarrow> cache_store" where
  "fetched_when t =
     [(lit ''AAPL'', lit ''TIME_SERIES_DAILY'') \<mapsto> \<lparr>row_data = example_payload, fetched_at = t\<rparr>]"

section \<open>Properties of the arithmetic\<close>

subsection \<open>Rounding to a double\<close>

lemma zero_simps [simp]:
  "zero neg \<noteq> NaN" "zero neg \<noteq> PosInf" "zero neg \<noteq> NegInf" "is_finite (zero neg)" "val (zero neg) = 0"
  by (simp_all add: zero_def)

lemma infinity_simps [simp]:
  "infinity neg \<noteq> NaN" "\<not> is_finite (infinity neg)"
  by (simp_all add: infinity_def)

lemma to_double_0 [simp]: "to_double neg 0 = zero neg"
  by (simp add: to_double_def)

lemma to_double_not_NaN [simp]: "to_double neg x \<noteq> NaN"
  by (simp add: to_double_def Let_def)

lemma pow2_pos: "0 < pow2 e"
  by (simp add: pow2_def)

lemma pow2_powr: "pow2 e = 2 powr (real_of_int e)"
  by (simp add: pow2_def powr_int)


lemma binade_le:
  assumes "0 < a"
  shows "pow2 (binade a) \<le> a"
proof (cases "1 \<le> a")
  case True
  then have n: "0 < \<lfloor>a\<rfloor>" by simp
  from bitlen_bounds[OF n] have b: "2 ^ nat (bitlen \<lfloor>a\<rfloor> - 1) \<le> \<lfloor>a\<rfloor>" by simp
  have "0 \<le> bitlen \<lfloor>a\<rfloor> - 1" using n by (simp add: bitlen_alt_def)
  then have "pow2 (bitlen \<lfloor>a\<rfloor> - 1) = 2 ^ nat (bitlen \<lfloor>a\<rfloor> - 1)"
    by (simp add: pow2_def)
  also have "\<dots> = real_of_int (2 ^ nat (bitlen \<lfloor>a\<rfloor> - 1))" by simp
  also have "\<dots> \<le> real_of_int \<lfloor>a\<rfloor>" using b by (simp only: of_int_le_iff)
  also have "\<dots> \<le> a" by simp
  finally show ?thesis using True by (simp add: binade_def)
next
  case False
  let ?b = "bitlen \<lfloor>1 / a\<rfloor>"
  show ?thesis
  proof (cases "pow2 (1 - ?b) \<le> a")
    case True
    with False show ?thesis by (simp add: binade_def Let_def)
  next
    case nle: False
    have "1 < 1 / a" using False assms by simp
    then have n: "0 < \<lfloor>1 / a\<rfloor>" by simp
    from bitlen_bounds[OF n] have "\<lfloor>1 / a\<rfloor> < 2 ^ nat ?b" by simp
    then have "\<lfloor>1 / a\<rfloor> + 1 \<le> 2 ^ nat ?b" by simp
    then have "real_of_int (\<lfloor>1 / a\<rfloor> + 1) \<le> real_of_int (2 ^ nat ?b)"
      by (simp only: of_int_le_iff)
    moreover have "1 / a < real_of_int (\<lfloor>1 / a\<rfloor> + 1)" by linarith
    ultimately have "1 / a < real_of_int (2 ^ nat ?b)" by linarith
    then have "1 / a < 2 ^ nat ?b" by simp
    then have "1 / 2 ^ nat ?b < a" using assms
      by (simp add: field_simps)
    moreover have "0 < ?b" using n by (simp add: bitlen_alt_def)
    then have "pow2 (- ?b) = 1 / 2 ^ nat ?b" by (simp add: pow2_def)
    ultimately have "pow2 (- ?b) \<le> a" by simp
    with False nle show ?thesis by (simp add: binade_def Let_def)
  qed
qed

lemma roundTiesToEven_bounds:
  assumes "0 \<le> q"
  shows "0 \<le> roundTiesToEven q" and "real_of_int (roundTiesToEven q) \<le> q + 1 / 2"
proof -
  have f: "0 \<le> \<lfloor>q\<rfloor>" using assms by simp
  show "0 \<le> roundTiesToEven q"
    using f by (simp add: roundTiesToEven_def Let_def)
  have "real_of_int \<lfloor>q\<rfloor> \<le> q" by simp
  then show "real_of_int (roundTiesToEven q) \<le> q + 1 / 2"
    unfolding roundTiesToEven_def Let_def by (auto split: if_splits) linarith+
qed



lemma pow2_mono: "e \<le> e' \<Longrightarrow> pow2 e \<le> pow2 e'"
  by (simp add: pow2_powr)

lemma pow2_less_imp: "pow2 e < pow2 e' \<Longrightarrow> e < e'"
  by (simp add: pow2_powr)

lemma pow2_Suc: "pow2 (e + 1) = 2 * pow2 e"
proof -
  have "pow2 (e + 1) = 2 powr (1 + real_of_int e)" by (simp add: pow2_powr add.commute)
  also have "\<dots> = 2 powr 1 * 2 powr (real_of_int e)" by (rule powr_add)
  finally show ?thesis by (simp add: pow2_powr)
qed

lemma pow2_53: "pow2 (e + 1) = 2 ^ 53 * pow2 (e - 52)"
proof -
  have "53 + (real_of_int e - 52) = real_of_int (e + 1)" by simp
  then have "pow2 (e + 1) = 2 powr (53 + (real_of_int e - 52))" by (simp only: pow2_powr)
  also have "\<dots> = 2 powr 53 * 2 powr (real_of_int e - 52)" by (rule powr_add)
  also have "(2::real) powr 53 = 2 ^ 53" by (simp add: powr_numeral)
  finally show ?thesis by (simp add: pow2_powr)
qed

lemma pow2_52: "pow2 e = 2 ^ 52 * pow2 (e - 52)"
proof -
  have "52 + (real_of_int e - 52) = real_of_int e" by simp
  then have "pow2 e = 2 powr (52 + (real_of_int e - 52))" by (simp only: pow2_powr)
  also have "\<dots> = 2 powr 52 * 2 powr (real_of_int e - 52)" by (rule powr_add)
  also have "(2::real) powr 52 = 2 ^ 52" by (simp add: powr_numeral)
  finally show ?thesis by (simp add: pow2_powr)
qed

lemma binade_gt:
  assumes "0 < a"
  shows "a < pow2 (binade a + 1)"
proof (cases "1 \<le> a")
  case True
  then have n: "0 < \<lfloor>a\<rfloor>" by simp
  from bitlen_bounds[OF n] have "\<lfloor>a\<rfloor> < 2 ^ nat (bitlen \<lfloor>a\<rfloor>)" by simp
  then have "\<lfloor>a\<rfloor> + 1 \<le> 2 ^ nat (bitlen \<lfloor>a\<rfloor>)" by simp
  then have "real_of_int (\<lfloor>a\<rfloor> + 1) \<le> real_of_int (2 ^ nat (bitlen \<lfloor>a\<rfloor>))"
    by (simp only: of_int_le_iff)
  moreover have "a < real_of_int (\<lfloor>a\<rfloor> + 1)" by linarith
  ultimately have "a < real_of_int (2 ^ nat (bitlen \<lfloor>a\<rfloor>))" by linarith
  then have "a < 2 ^ nat (bitlen \<lfloor>a\<rfloor>)" by simp
  moreover have "0 \<le> bitlen \<lfloor>a\<rfloor>" using n by (simp add: bitlen_alt_def)
  then have "pow2 (bitlen \<lfloor>a\<rfloor>) = 2 ^ nat (bitlen \<lfloor>a\<rfloor>)" by (simp add: pow2_def)
  ultimately show ?thesis using True by (simp add: binade_def)
next
  case False
  let ?b = "bitlen \<lfloor>1 / a\<rfloor>"
  show ?thesis
  proof (cases "pow2 (1 - ?b) \<le> a")
    case True
    have "1 < 1 / a" using False assms by simp
    then have n: "0 < \<lfloor>1 / a\<rfloor>" by simp
    then have b1: "1 \<le> ?b" by (simp add: bitlen_alt_def)
    from bitlen_bounds[OF n] have "2 ^ nat (?b - 1) \<le> \<lfloor>1 / a\<rfloor>" by simp
    then have "real_of_int (2 ^ nat (?b - 1)) \<le> real_of_int \<lfloor>1 / a\<rfloor>"
      by (simp only: of_int_le_iff)
    moreover have "real_of_int \<lfloor>1 / a\<rfloor> \<le> 1 / a" by simp
    ultimately have "real_of_int (2 ^ nat (?b - 1)) \<le> 1 / a" by linarith
    then have "2 ^ nat (?b - 1) \<le> 1 / a" by simp
    then have "a \<le> 1 / 2 ^ nat (?b - 1)" using assms by (simp add: field_simps)
    moreover have "pow2 (1 - ?b) = 1 / 2 ^ nat (?b - 1)"
    proof (cases "?b = 1")
      case True then show ?thesis by (simp add: pow2_def)
    next
      case False
      then have "1 - ?b < 0" using b1 by simp
      then show ?thesis by (simp add: pow2_def)
    qed
    ultimately have "a \<le> pow2 (1 - ?b)" by simp
    also have "\<dots> < 2 * pow2 (1 - ?b)" using pow2_pos[of "1 - ?b"] by simp
    also have "\<dots> = pow2 (1 - ?b + 1)" by (simp only: pow2_Suc)
    finally show ?thesis using False True by (simp add: binade_def Let_def)
  next
    case nle: False
    then have "a < pow2 (- ?b + 1)" by (simp add: add.commute)
    with False nle show ?thesis by (simp add: binade_def Let_def)
  qed
qed

lemma binade_unique:
  assumes "0 < a" "pow2 e \<le> a" "a < pow2 (e + 1)"
  shows "binade a = e"
proof -
  have "pow2 (binade a) < pow2 (e + 1)"
    using binade_le[OF assms(1)] assms(3) by linarith
  then have "binade a < e + 1" by (rule pow2_less_imp)
  moreover have "pow2 e < pow2 (binade a + 1)"
    using binade_gt[OF assms(1)] assms(2) by linarith
  then have "e < binade a + 1" by (rule pow2_less_imp)
  ultimately show ?thesis by simp
qed

lemma roundTiesToEven_lower: "q - 1 / 2 \<le> real_of_int (roundTiesToEven q)"
proof -
  have "q < real_of_int \<lfloor>q\<rfloor> + 1" by linarith
  then show ?thesis
    unfolding roundTiesToEven_def Let_def by (auto split: if_splits) linarith+
qed

lemma to_double_eval:
  assumes "0 < a" "pow2 e \<le> a" "a < pow2 (e + 1)" "- 1022 \<le> e" "e \<le> 1023"
    and "e < 1023 \<or> roundTiesToEven (a / pow2 (e - 52)) < 2 ^ 53"
  shows "to_double neg a = Fin (real_of_int (roundTiesToEven (a / pow2 (e - 52))) * pow2 (e - 52))"
    and "to_double neg (- a) = Fin (- (real_of_int (roundTiesToEven (a / pow2 (e - 52))) * pow2 (e - 52)))"
proof -
  define ulp where "ulp = pow2 (e - 52)"
  define m where "m = roundTiesToEven (a / ulp)"
  define y where "y = real_of_int m * ulp"
  have b: "binade a = e" by (rule binade_unique[OF assms(1-3)])
  then have ee: "max (binade a) (- 1022) - 52 = e - 52" using assms(4) by simp
  have u: "0 < ulp" by (simp add: ulp_def pow2_pos)
  have q: "0 \<le> a / ulp" using assms(1) u by simp
  have "2 ^ 52 * ulp \<le> a" using assms(2) pow2_52[of e] by (simp add: ulp_def)
  then have q52: "2 ^ 52 \<le> a / ulp" using u by (simp add: field_simps)
  have "a < 2 ^ 53 * ulp" using assms(3) pow2_53[of e] by (simp add: ulp_def)
  then have q53: "a / ulp < 2 ^ 53" using u by (simp add: field_simps)
  have "real_of_int m \<ge> a / ulp - 1 / 2" unfolding m_def by (rule roundTiesToEven_lower)
  moreover have "(1::real) \<le> 2 ^ 52" by simp
  ultimately have "real_of_int m > 0" using q52 by linarith
  then have y0: "0 < y" unfolding y_def using u by simp
  have "real_of_int m \<le> a / ulp + 1 / 2" unfolding m_def by (rule roundTiesToEven_bounds(2)[OF q])
  then have "real_of_int m < 2 ^ 53 + 1" using q53 by linarith
  then have "real_of_int m < real_of_int (2 ^ 53 + 1)" by simp
  then have "m < 2 ^ 53 + 1" by (simp only: of_int_less_iff)
  then have m53: "m \<le> 2 ^ 53" by simp
  have lt: "y < pow2 1024"
  proof (cases "e < 1023")
    case True
    have "real_of_int m \<le> real_of_int (2 ^ 53)" using m53 by (simp only: of_int_le_iff)
    then have "y \<le> 2 ^ 53 * ulp" unfolding y_def using u by simp
    also have "\<dots> = pow2 (e + 1)" by (simp add: pow2_53 ulp_def)
    also have "\<dots> \<le> pow2 1023" using True by (intro pow2_mono) simp
    also have "\<dots> < pow2 1024" by (simp add: pow2_powr)
    finally show ?thesis .
  next
    case False
    then have "m < 2 ^ 53" using assms(6) by (simp add: m_def ulp_def)
    then have "real_of_int m < real_of_int (2 ^ 53)" by (simp only: of_int_less_iff)
    then have "y < 2 ^ 53 * ulp" unfolding y_def using u by simp
    also have "\<dots> = pow2 (e + 1)" by (simp add: pow2_53 ulp_def)
    also have "\<dots> \<le> pow2 1024" using assms(5) by (intro pow2_mono) simp
    finally show ?thesis .
  qed
  have nz: "a \<noteq> 0" using assms(1) by simp
  show "to_double neg a = Fin (real_of_int (roundTiesToEven (a / pow2 (e - 52))) * pow2 (e - 52))"
    using assms(1) nz lt y0
    by (simp add: to_double_def Let_def ee ulp_def[symmetric] m_def[symmetric] y_def[symmetric])
  show "to_double neg (- a) = Fin (- (real_of_int (roundTiesToEven (a / pow2 (e - 52))) * pow2 (e - 52)))"
    using assms(1) nz lt y0
    by (simp add: to_double_def Let_def ee ulp_def[symmetric] m_def[symmetric] y_def[symmetric])
qed


lemma ex1: "to_double False 23 = Fin 23"
  using to_double_eval(1)[of 23 4 False]
  by (simp add: pow2_def roundTiesToEven_def Let_def)

lemma ex2: "to_double False (23 / 160) = Fin (2589569785738035 / 18014398509481984)"
  using to_double_eval(1)[of "23 / 160" "- 3" False]
  by (simp add: pow2_def roundTiesToEven_def Let_def)

subsection \<open>Operations on finite numbers\<close>









lemma fin_within_mono: "fin_within k x \<Longrightarrow> k \<le> k' \<Longrightarrow> fin_within k' x"
proof -
  assume a: "fin_within k x" and le: "k \<le> k'"
  have "(2::real) ^ k \<le> 2 ^ k'" using le by (simp add: power_increasing)
  with a show ?thesis unfolding fin_within_def by linarith
qed












section \<open>Properties of the Insight Engine\<close>

subsection \<open>Maximum, minimum and prices\<close>

lemma jmax2_Fin: "jmax2 (Fin a) (Fin b) = Fin (max a b)"
  by (simp add: jmax2_def max_def)

lemma jmin2_Fin: "jmin2 (Fin a) (Fin b) = Fin (min a b)"
  by (auto simp add: jmin2_def min_def)

lemma foldl_jmax2_Fin: "foldl jmax2 (Fin a) (map Fin hs) = Fin (fold max hs a)"
  by (induction hs arbitrary: a) (simp_all add: jmax2_Fin max.commute)

lemma foldl_jmin2_Fin: "foldl jmin2 (Fin a) (map Fin hs) = Fin (fold min hs a)"
  by (induction hs arbitrary: a) (simp_all add: jmin2_Fin min.commute)

lemma Math_max_Fin: "hs \<noteq> [] \<Longrightarrow> Math_max (map Fin hs) = Fin (Max (set hs))"
proof (cases hs)
  case (Cons h t)
  have "Math_max (map Fin (h # t)) = Fin (fold max t h)"
    by (simp add: Math_max_def jmax2_def foldl_jmax2_Fin)
  then show ?thesis
    unfolding Cons Max.set_eq_fold .
qed simp

lemma Math_min_Fin: "ls \<noteq> [] \<Longrightarrow> Math_min (map Fin ls) = Fin (Min (set ls))"
proof (cases ls)
  case (Cons l t)
  have "Math_min (map Fin (l # t)) = Fin (fold min t l)"
    by (simp add: Math_min_def jmin2_def foldl_jmin2_Fin)
  then show ?thesis
    unfolding Cons Min.set_eq_fold .
qed simp




lemma pastPrice_truthy:
  "days < length ds \<Longrightarrow> truthy (close (ds ! days)) \<Longrightarrow> pastPrice ds days = close (ds ! days)"
  by (simp add: pastPrice_def nth_opt_def)


lemma calculateTrend_enough:
  assumes "days + 1 \<le> length ds"
  shows "calculateTrend ds days =
           \<lparr>direction =
              (if jgreater (jmul (jdiv (jsub (close (ds ! 0)) (pastPrice ds days))
                                    (pastPrice ds days)) (Fin 100)) (Fin (1 / 2)) then Up
               else if jless (jmul (jdiv (jsub (close (ds ! 0)) (pastPrice ds days))
                                      (pastPrice ds days)) (Fin 100)) (Fin (- (1 / 2))) then Down
               else Flat),
            trend_percentage =
              roundToTwo (jmul (jdiv (jsub (close (ds ! 0)) (pastPrice ds days))
                                 (pastPrice ds days)) (Fin 100))\<rparr>"
  using assms by (simp add: calculateTrend_def Let_def)

lemma jdiff_self_flat:
  "\<not> jgreater (jmul (jdiv (jsub c c) c) (Fin 100)) (Fin (1 / 2)) \<and>
   \<not> jless (jmul (jdiv (jsub c c) c) (Fin 100)) (Fin (- (1 / 2)))"
  by (cases c) (simp_all add: jgreater_def zero_def)

lemma pastPrice_all_equal:
  assumes "\<forall>d\<in>set ds. close d = c" "ds \<noteq> []"
  shows "pastPrice ds days = c"
  using assms by (auto simp: pastPrice_def nth_opt_def)

lemma calculateTrend_all_equal:
  assumes "\<forall>d\<in>set ds. close d = c"
  shows "direction (calculateTrend ds days) = Flat"
proof (cases "length ds < days + 1")
  case True then show ?thesis by (simp add: calculateTrend_def)
next
  case False
  then have ne: "ds \<noteq> []" by auto
  then have "close (ds ! 0) = c" using assms by (cases ds) auto
  with False ne show ?thesis
    using jdiff_self_flat[of c] pastPrice_all_equal[OF assms ne, of days]
    by (simp add: calculateTrend_def Let_def)
qed

subsection \<open>Doubles met in the examples\<close>

text \<open>
  Each lemma rounds one exact result to its double, by \<open>to_double_eval\<close> at the binade
  of the result.
\<close>

lemma rise_change: "to_double False (23) = Fin (23)"
  using to_double_eval(1)[of "23" "4" False]
  by (simp add: pow2_def roundTiesToEven_def Let_def)

lemma rise_absolute_scaled: "to_double False (2300) = Fin (2300)"
  using to_double_eval(1)[of "2300" "11" False]
  by (simp add: pow2_def roundTiesToEven_def Let_def)

lemma rise_quotient: "to_double False (23 / 160) = Fin (2589569785738035 / 18014398509481984)"
  using to_double_eval(1)[of "23 / 160" "- 3" False]
  by (simp add: pow2_def roundTiesToEven_def Let_def)

lemma rise_percent:
  "to_double False (64739244643450875 / 4503599627370496) =
     Fin (8092405580431359 / 562949953421312)"
  using to_double_eval(1)[of "64739244643450875 / 4503599627370496" "3" False]
  by (simp add: pow2_def roundTiesToEven_def Let_def)

lemma rise_percentage_scaled:
  "to_double False (202310139510783975 / 140737488355328) =
     Fin (6322191859711999 / 4398046511104)"
  using to_double_eval(1)[of "202310139510783975 / 140737488355328" "10" False]
  by (simp add: pow2_def roundTiesToEven_def Let_def)

lemma rise_percentage_rounded:
  "to_double False (1437 / 100) =
     Fin (8089590830664253 / 562949953421312)"
  using to_double_eval(1)[of "1437 / 100" "3" False]
  by (simp add: pow2_def roundTiesToEven_def Let_def)

lemma edge_change: "to_double False (1) = Fin (1)"
  using to_double_eval(1)[of "1" "0" False]
  by (simp add: pow2_def roundTiesToEven_def Let_def)

lemma edge_absolute_scaled: "to_double False (100) = Fin (100)"
  using to_double_eval(1)[of "100" "6" False]
  by (simp add: pow2_def roundTiesToEven_def Let_def)

lemma edge_quotient: "to_double False (1 / 200) = Fin (5764607523034235 / 1152921504606846976)"
  using to_double_eval(1)[of "1 / 200" "- 8" False]
  by (simp add: pow2_def roundTiesToEven_def Let_def)

lemma edge_percent: "to_double False (144115188075855875 / 288230376151711744) = Fin (1 / 2)"
  using to_double_eval(1)[of "144115188075855875 / 288230376151711744" "- 1" False]
  by (simp add: pow2_def roundTiesToEven_def Let_def)

lemma edge_percentage_scaled: "to_double False (50) = Fin (50)"
  using to_double_eval(1)[of "50" "5" False]
  by (simp add: pow2_def roundTiesToEven_def Let_def)

lemma edge_percentage_rounded: "to_double False (1 / 2) = Fin (1 / 2)"
  using to_double_eval(1)[of "1 / 2" "- 1" False]
  by (simp add: pow2_def roundTiesToEven_def Let_def)

lemma high_january_scaled: "to_double False (3050) = Fin (3050)"
  using to_double_eval(1)[of "3050" "11" False]
  by (simp add: pow2_def roundTiesToEven_def Let_def)

lemma high_january_rounded: "to_double False (61 / 2) = Fin (61 / 2)"
  using to_double_eval(1)[of "61 / 2" "4" False]
  by (simp add: pow2_def roundTiesToEven_def Let_def)

lemma nearest_72_065: "to_double False (14413 / 200) = Fin (1267780887290839 / 17592186044416)"
  using to_double_eval(1)[of "14413 / 200" "6" False]
  by (simp add: pow2_def roundTiesToEven_def Let_def)

lemma quote72_scaled: "to_double False (31694522182270975 / 4398046511104) = Fin (14413 / 2)"
  using to_double_eval(1)[of "31694522182270975 / 4398046511104" "12" False]
  by (simp add: pow2_def roundTiesToEven_def Let_def)

lemma quote72_rounded: "to_double False (7207 / 100) = Fin (1267868848221061 / 17592186044416)"
  using to_double_eval(1)[of "7207 / 100" "6" False]
  by (simp add: pow2_def roundTiesToEven_def Let_def)

lemmas example_doubles =
  rise_change rise_absolute_scaled rise_quotient rise_percent
  rise_percentage_scaled rise_percentage_rounded edge_change edge_absolute_scaled
  edge_quotient edge_percent edge_percentage_scaled edge_percentage_rounded
  high_january_scaled high_january_rounded nearest_72_065 quote72_scaled
  quote72_rounded



lemma series8_facts:
  "length series8 = 8" "close (series8 ! 0) = Fin 201" "close (series8 ! 7) = Fin 200"
  by (simp_all add: series8_def point_def)

lemma rise8_facts:
  "length rise8 = 8" "close (rise8 ! 0) = Fin 183" "close (rise8 ! 1) = Fin 160"
  "close (rise8 ! 7) = Fin 160" "rise8 \<noteq> []" "close (rise8 ! Suc 0) = Fin 160"
  by (simp_all add: rise8_def point_def)

lemma flat8_facts:
  "length flat8 = 8" "close (flat8 ! 0) = Fin 50" "close (flat8 ! 7) = Fin 50"
  "map close flat8 = replicate 8 (Fin 50)" "\<forall>d\<in>set flat8. close d = Fin 50"
  by (simp_all add: flat8_def point_def numeral_eq_Suc)

lemma rise_percent_value:
  "jmul (jdiv (jsub (Fin 183) (Fin 160)) (Fin 160)) (Fin 100) = Fin (8092405580431359 / 562949953421312)"
  by (simp add: example_doubles)

lemma rise_absolute_value:
  "jdiv (Math_round (jmul (jsub (Fin 183) (Fin 160)) (Fin 100))) (Fin 100) = Fin 23"
  by (simp add: example_doubles)

lemma rise_percentage_value:
  "jdiv (Math_round (jmul (Fin (8092405580431359 / 562949953421312)) (Fin 100))) (Fin 100) =
     Fin (8089590830664253 / 562949953421312)"
  by (simp add: example_doubles)

lemma edge_percent_value:
  "jmul (jdiv (jsub (Fin 201) (Fin 200)) (Fin 200)) (Fin 100) = Fin (1 / 2)"
  by (simp add: example_doubles)

lemma flat_percent_value:
  "jmul (jdiv (jsub (Fin 50) (Fin 50)) (Fin 50)) (Fin 100) = Fin 0"
  by (simp add: zero_def)

lemma rise_rounded:
  "roundToTwo (Fin (8092405580431359 / 562949953421312)) =
     Fin (8089590830664253 / 562949953421312)"
  by (simp add: roundToTwo_def example_doubles)

lemma half_rounded: "roundToTwo (Fin (1 / 2)) = Fin (1 / 2)"
  by (simp add: roundToTwo_def example_doubles)

lemma high_january_value: "roundToTwo (Fin (61 / 2)) = Fin (61 / 2)"
  by (simp add: roundToTwo_def example_doubles)

lemma quote72_value: "roundToTwo (Fin quote72) = Fin (1267868848221061 / 17592186044416)"
  by (simp add: roundToTwo_def quote72_def example_doubles)


subsection \<open>Day change\<close>

text \<open>
  Claim C6, as amended. On every non-empty series \<^verbatim>\<open>calculateInsights\<close> returns a record
  whose \<open>dayChange\<close> is \<open>{0, 0}\<close> when the series has one point, and otherwise has
  \<open>absolute = series[0].close - series[1].close\<close> and
  \<open>percentage = absolute / series[1].close * 100\<close>, each rounded by
  \<^verbatim>\<open>Math.round(x * 100) / 100\<close>, every operation being the one of the doubles.
\<close>

theorem calculateInsights_dayChange:
  assumes "ds \<noteq> []"
  shows "\<exists>r. calculateInsights pf symb ds ov = Inr r \<and>
           (length ds < 2 \<longrightarrow> dayChange r = \<lparr>absolute = Fin 0, percentage = Fin 0\<rparr>) \<and>
           (2 \<le> length ds \<longrightarrow>
              dayChange r =
                \<lparr>absolute =
                   jdiv (Math_round
                           (jmul (jsub (close (ds ! 0)) (close (ds ! 1))) (Fin 100)))
                     (Fin 100),
                 percentage =
                   jdiv (Math_round
                           (jmul (jmul (jdiv (jsub (close (ds ! 0)) (close (ds ! 1)))
                                          (close (ds ! 1))) (Fin 100)) (Fin 100)))
                     (Fin 100)\<rparr>)"
  using assms
  by (auto simp: calculateInsights_def Let_def nth_opt_def calculateDayChange_def roundToTwo_def)

text \<open>
  The theorem at a series whose two latest closes are 183 after 160: a change of 23,
  and a percentage of 14.37, the double nearest to it. (The exact quotient 23/160 times
  100 is 14.375; the doubles give 14.374999999999998, which rounds down.)
\<close>

theorem calculateInsights_dayChange_witness:
  "rise8 \<noteq> [] \<and>
   (\<exists>r. calculateInsights parseDigits (lit ''AAPL'') rise8 None = Inr r \<and>
         dayChange r = \<lparr>absolute = Fin 23, percentage = Fin (8089590830664253 / 562949953421312)\<rparr>) \<and>
   to_double False (1437 / 100) = Fin (8089590830664253 / 562949953421312)"
  using calculateInsights_dayChange[of rise8 parseDigits "lit ''AAPL''" None]
  by (auto simp add: rise8_facts rise_percent_value rise_absolute_value rise_percentage_value
      rise_percentage_rounded
      simp del: jsub.simps jmul.simps jdiv.simps Math_round.simps)

text \<open>
  Claim C6 as stated covers the series with no point, where it promises a day change of
  \<open>{0, 0}\<close>: there \<^verbatim>\<open>calculateInsights\<close> throws and no day change is computed.
\<close>

theorem calculateInsights_empty_series:
  "length ([] :: NormalizedDailyData list) < 2 \<and>
   calculateInsights parseDigits (lit ''AAPL'') [] None =
     Inl (Error (lit ''No data available to calculate insights''))"
  by (simp add: calculateInsights_def)

subsection \<open>Trend\<close>

text \<open>
  Claim C7. For every series and window: with fewer than \<open>window + 1\<close> points the trend is
  \<open>{direction: flat, percentage: 0}\<close>; otherwise, with a truthy close at index \<open>window\<close>
  (every positive price is), the percentage change of \<open>series[0].close\<close> against
  \<open>series[window].close\<close>, computed in doubles, decides the direction: up exactly when
  it exceeds 0.5, down exactly when it is below -0.5, flat otherwise, and the returned
  percentage is that change rounded to two decimals. A change of exactly 0.5 is flat,
  and a series whose closes are all equal is flat at every window. The windows 7 and 30
  of the claim are instances of \<open>days\<close>.
\<close>

theorem calculateTrend_windows:
  "(length ds < days + 1 \<longrightarrow>
      calculateTrend ds days = \<lparr>direction = Flat, trend_percentage = Fin 0\<rparr>) \<and>
   (days + 1 \<le> length ds \<and> truthy (close (ds ! days)) \<longrightarrow>
      calculateTrend ds days =
        \<lparr>direction =
           (if jgreater (jmul (jdiv (jsub (close (ds ! 0)) (close (ds ! days)))
                                 (close (ds ! days))) (Fin 100)) (Fin (1 / 2)) then Up
            else if jless (jmul (jdiv (jsub (close (ds ! 0)) (close (ds ! days)))
                                   (close (ds ! days))) (Fin 100)) (Fin (- (1 / 2))) then Down
            else Flat),
         trend_percentage =
           roundToTwo (jmul (jdiv (jsub (close (ds ! 0)) (close (ds ! days)))
                              (close (ds ! days))) (Fin 100))\<rparr>) \<and>
   (days + 1 \<le> length ds \<and> truthy (close (ds ! days)) \<and>
    jmul (jdiv (jsub (close (ds ! 0)) (close (ds ! days))) (close (ds ! days))) (Fin 100) =
      Fin (1 / 2) \<longrightarrow>
      direction (calculateTrend ds days) = Flat) \<and>
   ((\<forall>d\<in>set ds. close d = c) \<longrightarrow> direction (calculateTrend ds days) = Flat)"
proof (intro conjI impI)
  assume "length ds < days + 1"
  then show "calculateTrend ds days = \<lparr>direction = Flat, trend_percentage = Fin 0\<rparr>"
    by (simp add: calculateTrend_def)
next
  assume a: "days + 1 \<le> length ds \<and> truthy (close (ds ! days))"
  then have p: "pastPrice ds days = close (ds ! days)"
    by (simp add: pastPrice_truthy)
  from a have "days + 1 \<le> length ds" by blast
  from calculateTrend_enough[OF this]
  show "calculateTrend ds days =
        \<lparr>direction =
           (if jgreater (jmul (jdiv (jsub (close (ds ! 0)) (close (ds ! days)))
                                 (close (ds ! days))) (Fin 100)) (Fin (1 / 2)) then Up
            else if jless (jmul (jdiv (jsub (close (ds ! 0)) (close (ds ! days)))
                                   (close (ds ! days))) (Fin 100)) (Fin (- (1 / 2))) then Down
            else Flat),
         trend_percentage =
           roundToTwo (jmul (jdiv (jsub (close (ds ! 0)) (close (ds ! days)))
                              (close (ds ! days))) (Fin 100))\<rparr>"
    unfolding p .
next
  assume a: "days + 1 \<le> length ds \<and> truthy (close (ds ! days)) \<and>
    jmul (jdiv (jsub (close (ds ! 0)) (close (ds ! days))) (close (ds ! days))) (Fin 100) =
      Fin (1 / 2)"
  then have p: "pastPrice ds days = close (ds ! days)"
    by (simp add: pastPrice_truthy)
  from a have l: "days + 1 \<le> length ds"
    and h: "jmul (jdiv (jsub (close (ds ! 0)) (close (ds ! days))) (close (ds ! days))) (Fin 100) =
      Fin (1 / 2)" by blast+
  show "direction (calculateTrend ds days) = Flat"
    unfolding calculateTrend_enough[OF l] p h by (simp add: jgreater_def)
next
  assume "\<forall>d\<in>set ds. close d = c"
  then show "direction (calculateTrend ds days) = Flat"
    by (rule calculateTrend_all_equal)
qed

lemma rise_up: "jgreater (Fin (8092405580431359 / 562949953421312)) (Fin (1 / 2))"
  by (simp add: jgreater_def)

text \<open>
  The theorem at series of eight points: too short for the window 30; 201 against 200
  over the window 7, where the doubles give a change of exactly 0.5 and the trend is flat;
  183 against 160, up by 14.37; and eight days of equal closes.
\<close>

theorem calculateTrend_windows_witness:
  "length series8 < 30 + 1 \<and>
   calculateTrend series8 30 = \<lparr>direction = Flat, trend_percentage = Fin 0\<rparr> \<and>
   7 + 1 \<le> length series8 \<and> truthy (close (series8 ! 7)) \<and>
   jmul (jdiv (jsub (close (series8 ! 0)) (close (series8 ! 7))) (close (series8 ! 7))) (Fin 100) =
     Fin (1 / 2) \<and>
   calculateTrend series8 7 = \<lparr>direction = Flat, trend_percentage = Fin (1 / 2)\<rparr> \<and>
   7 + 1 \<le> length rise8 \<and> truthy (close (rise8 ! 7)) \<and>
   calculateTrend rise8 7 =
     \<lparr>direction = Up, trend_percentage = Fin (8089590830664253 / 562949953421312)\<rparr> \<and>
   map close flat8 = replicate 8 (Fin 50) \<and>
   direction (calculateTrend flat8 7) = Flat"
  using calculateTrend_windows[of series8 30 "Fin 0"]
        calculateTrend_windows[of series8 7 "Fin 0"]
        calculateTrend_windows[of rise8 7 "Fin 0"]
        calculateTrend_windows[of flat8 7 "Fin 50"]
  by (simp add: series8_facts rise8_facts flat8_facts edge_percent_value half_rounded
      rise_percent_value rise_rounded rise_up flat_percent_value jgreater_def
      del: jsub.simps jmul.simps jdiv.simps Math_round.simps)

subsection \<open>52-week range\<close>

text \<open>
  Claim C8. The range is taken over the first \<open>min(252, length)\<close> entries. With fewer than
  30 entries both \<open>high52Week\<close> and \<open>low52Week\<close> are absent; with 30 or more, and finite
  highs and lows in the window, \<open>high52Week\<close> is the maximum of the highs and \<open>low52Week\<close>
  the minimum of the lows of the window, each rounded to two decimals by \<^verbatim>\<open>roundToTwo\<close>
  in doubles. A series of 29 points gives both absent, and for a series of 30 points
  the window is the whole series.
\<close>

theorem calculate52WeekHighLow_range:
  "(length ds < 30 \<longrightarrow>
      calculate52WeekHighLow ds = \<lparr>hl_high52Week = None, hl_low52Week = None\<rparr>) \<and>
   (30 \<le> length ds \<and>
    map high (take (min 252 (length ds)) ds) = map Fin hs \<and>
    map low (take (min 252 (length ds)) ds) = map Fin ls \<longrightarrow>
      calculate52WeekHighLow ds =
        \<lparr>hl_high52Week = Some (roundToTwo (Fin (Max (set hs)))),
         hl_low52Week = Some (roundToTwo (Fin (Min (set ls))))\<rparr>) \<and>
   (length ds = 29 \<longrightarrow>
      calculate52WeekHighLow ds = \<lparr>hl_high52Week = None, hl_low52Week = None\<rparr>) \<and>
   (length ds = 30 \<longrightarrow> take (min 252 (length ds)) ds = ds)"
proof (intro conjI impI)
  assume a: "30 \<le> length ds \<and>
    map high (take (min 252 (length ds)) ds) = map Fin hs \<and>
    map low (take (min 252 (length ds)) ds) = map Fin ls"
  then have len: "30 \<le> length ds"
    and h: "map high (take (min 252 (length ds)) ds) = map Fin hs"
    and l: "map low (take (min 252 (length ds)) ds) = map Fin ls"
    by blast+
  have w: "\<not> min 252 (length ds) < 30" using len by simp
  have "length (map Fin hs :: jsnum list) = min 252 (length ds)"
    unfolding h[symmetric] by simp
  then have hs: "hs \<noteq> []" using len by auto
  have "length (map Fin ls :: jsnum list) = min 252 (length ds)"
    unfolding l[symmetric] by simp
  then have ls: "ls \<noteq> []" using len by auto
  have "calculate52WeekHighLow ds =
        \<lparr>hl_high52Week = Some (roundToTwo (Math_max (map high (take (min 252 (length ds)) ds)))),
         hl_low52Week = Some (roundToTwo (Math_min (map low (take (min 252 (length ds)) ds))))\<rparr>"
    using w by (simp add: calculate52WeekHighLow_def Let_def)
  then show "calculate52WeekHighLow ds =
        \<lparr>hl_high52Week = Some (roundToTwo (Fin (Max (set hs)))),
         hl_low52Week = Some (roundToTwo (Fin (Min (set ls))))\<rparr>"
    unfolding h l Math_max_Fin[OF hs] Math_min_Fin[OF ls] .
qed (simp_all add: calculate52WeekHighLow_def)

lemma january_len: "length (january n) = n"
  by (simp add: january_def)

lemma january_high:
  "map high (take (min 252 (length (january 30))) (january 30)) = map Fin january_highs"
  by (simp add: january_def day_def comp_def january_highs_def)

lemma january_low:
  "map low (take (min 252 (length (january 30))) (january 30)) = map Fin january_lows"
  by (simp add: january_def day_def comp_def january_lows_def)

lemma january_max: "Max (set january_highs) = 61 / 2"
  by code_simp

lemma january_min: "Min (set january_lows) = 1 / 2"
  by code_simp

lemma steady30_len: "length steady30 = 30"
  by (simp add: steady30_def)

lemma steady30_high:
  "map high (take (min 252 (length steady30)) steady30) = map Fin (replicate 30 quote72)"
  by (simp add: steady30_def steady_def comp_def map_replicate_const)

lemma steady30_low:
  "map low (take (min 252 (length steady30)) steady30) = map Fin (replicate 30 quote72)"
  by (simp add: steady30_def steady_def comp_def map_replicate_const)

lemma nearest_quote72: "to_double False (72065 / 1000) = Fin quote72"
  by (simp add: quote72_def example_doubles)

text \<open>
  The theorem at thirty days of January and at the first twenty-nine of them, and at
  thirty days at the price \<^verbatim>\<open>parseFloat('72.0650')\<close>, whose range is 72.07: one hundred
  times that double is the double 7206.5, which \<^verbatim>\<open>Math.round\<close> takes up.
\<close>

theorem calculate52WeekHighLow_range_witness:
  "30 \<le> length (january 30) \<and>
   map high (take (min 252 (length (january 30))) (january 30)) = map Fin january_highs \<and>
   map low (take (min 252 (length (january 30))) (january 30)) = map Fin january_lows \<and>
   calculate52WeekHighLow (january 30) =
     \<lparr>hl_high52Week = Some (Fin (61 / 2)), hl_low52Week = Some (Fin (1 / 2))\<rparr> \<and>
   length (january 29) = 29 \<and>
   calculate52WeekHighLow (january 29) = \<lparr>hl_high52Week = None, hl_low52Week = None\<rparr> \<and>
   take (min 252 (length (january 30))) (january 30) = january 30 \<and>
   30 \<le> length steady30 \<and>
   map high (take (min 252 (length steady30)) steady30) = map Fin (replicate 30 quote72) \<and>
   map low (take (min 252 (length steady30)) steady30) = map Fin (replicate 30 quote72) \<and>
   to_double False (72065 / 1000) = Fin quote72 \<and>
   to_double False (7207 / 100) = Fin (1267868848221061 / 17592186044416) \<and>
   calculate52WeekHighLow steady30 =
     \<lparr>hl_high52Week = Some (Fin (1267868848221061 / 17592186044416)),
      hl_low52Week = Some (Fin (1267868848221061 / 17592186044416))\<rparr>"
  using calculate52WeekHighLow_range[of "january 30" january_highs january_lows]
        calculate52WeekHighLow_range[of "january 29" "[]" "[]"]
        calculate52WeekHighLow_range[of steady30 "replicate 30 quote72" "replicate 30 quote72"]
        january_high january_low steady30_high steady30_low nearest_quote72
  by (simp add: january_len january_max january_min high_january_value half_rounded
      steady30_len quote72_value quote72_rounded)

subsection \<open>Divisions\<close>














section \<open>Properties of the symbol validation\<close>

lemma in_class_symbolRegex: "in_class symbolRegex_class c = symbol_char c"
  by (auto simp: in_class_def symbolRegex_class_def symbol_char_def)

lemma match_repeat_at_end:
  "match_repeat cls m n at_end s = (m \<le> length s \<and> length s \<le> n \<and> list_all (in_class cls) s)"
proof (induction cls m n "at_end" s rule: match_repeat.induct)
  case (1 cls s)
  then show ?case by (cases s) (simp_all add: at_end_def)
next
  case (2 cls n s)
  then show ?case by (cases s) (auto simp: at_end_def)
next
  case (3 cls m s)
  then show ?case by auto
next
  case (4 cls m n s)
  then show ?case by (cases s) auto
qed

text \<open>
  Claim C9. \<^verbatim>\<open>validateSymbol\<close> accepts a string exactly when its upper-cased form has 1 to
  10 characters, each an uppercase letter A to Z, a digit or a dot.
\<close>

theorem validateSymbol_iff:
  "validateSymbol upper symb = well_formed_symbol (upper symb)"
proof -
  have "list_all (in_class symbolRegex_class) s = list_all symbol_char s" for s
    by (simp add: list_all_iff in_class_symbolRegex)
  then show ?thesis
    by (simp add: validateSymbol_def symbolRegex_test_def match_repeat_at_end
        well_formed_symbol_def)
qed

text \<open>
  The theorem at a composite ticker in lower case, which is accepted, and at three
  rejected strings: the empty one, one of eleven letters, and one with a space.
\<close>

theorem validateSymbol_iff_witness:
  "validateSymbol asciiUpper (lit ''brk.a'') \<and>
   well_formed_symbol (asciiUpper (lit ''brk.a'')) \<and>
   \<not> validateSymbol asciiUpper (lit '''') \<and>
   \<not> validateSymbol asciiUpper (lit ''ABCDEFGHIJK'') \<and>
   \<not> validateSymbol asciiUpper (lit ''A B'')"
  using validateSymbol_iff[of asciiUpper "lit ''brk.a''"]
        validateSymbol_iff[of asciiUpper "lit ''''"]
        validateSymbol_iff[of asciiUpper "lit ''ABCDEFGHIJK''"]
        validateSymbol_iff[of asciiUpper "lit ''A B''"]
  by (simp add: well_formed_symbol_def asciiUpper_def asciiUpperChar_def lit_def symbol_char_def)

section \<open>Properties of the Rate-Limited Dispatcher\<close>

subsection \<open>The invariant\<close>

lemma dispatcher_invD:
  assumes "dispatcher_inv js s"
  shows "length (started s) \<le> length js"
    and "requestQueue s = drop (length (started s)) js"
    and "map fst (started s) = map promise (take (length (started s)) js)"
    and "nextPromise s = length js"
    and "pending s = Idle \<Longrightarrow> \<not> isProcessingQueue s \<and> requestQueue s = [] \<and>
           settled s = map own (take (length (started s)) js)"
    and "pending s = AwaitRequest r fin \<Longrightarrow> isProcessingQueue s \<and> 0 < length (started s) \<and>
           r = js ! (length (started s) - 1) \<and>
           settled s = map own (take (length (started s) - 1) js)"
    and "pending s = AwaitDelay u \<Longrightarrow> isProcessingQueue s \<and> requestQueue s \<noteq> [] \<and>
           settled s = map own (take (length (started s)) js)"
  using assms by (auto simp: dispatcher_inv_def Let_def)

lemma dispatcher_invI:
  assumes "length (started s) \<le> length js"
    and "requestQueue s = drop (length (started s)) js"
    and "map fst (started s) = map promise (take (length (started s)) js)"
    and "nextPromise s = length js"
    and "pending s = Idle \<Longrightarrow> \<not> isProcessingQueue s \<and> requestQueue s = [] \<and>
           settled s = map own (take (length (started s)) js)"
    and "\<And>r fin. pending s = AwaitRequest r fin \<Longrightarrow> isProcessingQueue s \<and> 0 < length (started s) \<and>
           r = js ! (length (started s) - 1) \<and>
           settled s = map own (take (length (started s) - 1) js)"
    and "\<And>u. pending s = AwaitDelay u \<Longrightarrow> isProcessingQueue s \<and> requestQueue s \<noteq> [] \<and>
           settled s = map own (take (length (started s)) js)"
  shows "dispatcher_inv js s"
  using assms by (cases "pending s") (auto simp: dispatcher_inv_def Let_def)

lemma inv_queueRequest:
  assumes inv: "dispatcher_inv js s"
  shows "dispatcher_inv (js @ [\<lparr>promise = nextPromise s, duration = d, outcome = out\<rparr>])
           (queueRequest d out s)"
proof (cases "pending s")
  case Idle
  note f = dispatcher_invD[OF inv]
  from f(5)[OF Idle] f(1,2) have k: "length (started s) = length js"
    by simp
  have q: "queueRequest d out s =
      s\<lparr>requestQueue := [], nextPromise := nextPromise s + 1, isProcessingQueue := True,
        pending := AwaitRequest \<lparr>promise = nextPromise s, duration = d, outcome = out\<rparr> (now s + d),
        started := started s @ [(nextPromise s, now s)]\<rparr>"
    using f(5)[OF Idle] by (simp add: queueRequest_def processQueue_def drain_def)
  show ?thesis
    unfolding q using f(3,4) f(5)[OF Idle] k
    by (intro dispatcher_invI) simp_all
next
  case (AwaitRequest r fin)
  note f = dispatcher_invD[OF inv]
  note g = f(6)[OF AwaitRequest]
  have q: "queueRequest d out s =
      s\<lparr>requestQueue := requestQueue s @ [\<lparr>promise = nextPromise s, duration = d, outcome = out\<rparr>],
        nextPromise := nextPromise s + 1\<rparr>"
    using g by (simp add: queueRequest_def processQueue_def)
  have lt: "length (started s) - 1 < length js" using g f(1) by arith
  show ?thesis
    unfolding q using f(1,2,3,4) g AwaitRequest lt
    by (intro dispatcher_invI) (simp_all add: nth_append)
next
  case (AwaitDelay u)
  note f = dispatcher_invD[OF inv]
  note g = f(7)[OF AwaitDelay]
  have q: "queueRequest d out s =
      s\<lparr>requestQueue := requestQueue s @ [\<lparr>promise = nextPromise s, duration = d, outcome = out\<rparr>],
        nextPromise := nextPromise s + 1\<rparr>"
    using g by (simp add: queueRequest_def processQueue_def)
  show ?thesis
    unfolding q using f(1,2,3,4) g AwaitDelay
    by (intro dispatcher_invI) simp_all
qed

lemma inv_now: "dispatcher_inv js s \<Longrightarrow> dispatcher_inv js (s\<lparr>now := t\<rparr>)"
  by (auto simp: dispatcher_inv_def Let_def split: continuation.splits)

lemma inv_after_request:
  assumes inv: "dispatcher_inv js s" and p: "pending s = AwaitRequest r fin"
  shows "dispatcher_inv js (after_request r (s\<lparr>now := t\<rparr>))"
proof -
  note f = dispatcher_invD[OF inv]
  note g = f(6)[OF p]
  from g obtain k where k: "length (started s) = Suc k"
    by (cases "length (started s)") auto
  have lt: "k < length js" using f(1) k by simp
  have st: "settled s @ [(promise r, wrapper (outcome r))] = map own (take (length (started s)) js)"
    using g k lt by (simp add: take_Suc_conv_app_nth own_def)
  show ?thesis
  proof (cases "requestQueue s")
    case Nil
    have a: "after_request r (s\<lparr>now := t\<rparr>) =
        s\<lparr>now := t, settled := settled s @ [(promise r, wrapper (outcome r))],
          isProcessingQueue := False, pending := Idle\<rparr>"
      using Nil by (simp add: after_request_def drain_def Let_def)
    show ?thesis
      unfolding a using f(1,2,3,4) st Nil
      by (intro dispatcher_invI) simp_all
  next
    case (Cons x xs)
    have a: "after_request r (s\<lparr>now := t\<rparr>) =
        s\<lparr>now := t, settled := settled s @ [(promise r, wrapper (outcome r))],
          pending := AwaitDelay (t + minRequestInterval)\<rparr>"
      using Cons by (simp add: after_request_def Let_def)
    have ne: "requestQueue s \<noteq> []" using Cons by simp
    have ip: "isProcessingQueue s" using g by simp
    show ?thesis
      unfolding a using f(1,2,3,4) st ne ip
      by (intro dispatcher_invI) auto
  qed
qed

lemma inv_drain:
  assumes inv: "dispatcher_inv js s" and p: "pending s = AwaitDelay u"
  shows "dispatcher_inv js (drain (s\<lparr>now := t\<rparr>))"
proof -
  note f = dispatcher_invD[OF inv]
  note g = f(7)[OF p]
  let ?k = "length (started s)"
  have lt: "?k < length js" using g f(1,2) by auto
  then have d: "requestQueue s = js ! ?k # drop (Suc ?k) js"
    using f(2) by (simp add: Cons_nth_drop_Suc)
  have a: "drain (s\<lparr>now := t\<rparr>) =
      s\<lparr>now := t, requestQueue := drop (Suc ?k) js,
        pending := AwaitRequest (js ! ?k) (t + duration (js ! ?k)),
        started := started s @ [(promise (js ! ?k), t)]\<rparr>"
    using d by (simp add: drain_def)
  show ?thesis
    unfolding a using f(3,4) g lt
    by (intro dispatcher_invI) (simp_all add: take_Suc_conv_app_nth)
qed

lemma inv_advance: "dispatcher_inv js s \<Longrightarrow> dispatcher_inv js (advance t s)"
proof (induction t s rule: advance.induct)
  case (1 t s)
  show ?case
  proof (cases "pending s")
    case Idle
    then show ?thesis using "1.prems" by (simp add: advance.simps[of t s] inv_now)
  next
    case (AwaitRequest r fin)
    show ?thesis
    proof (cases "fin \<le> t")
      case True
      then show ?thesis
        using AwaitRequest "1.IH"(1)[OF AwaitRequest True] inv_after_request[OF "1.prems" AwaitRequest]
        by (simp add: advance.simps[of t s])
    next
      case False
      then show ?thesis using AwaitRequest "1.prems" by (simp add: advance.simps[of t s] inv_now)
    qed
  next
    case (AwaitDelay u)
    show ?thesis
    proof (cases "u \<le> t")
      case True
      then show ?thesis
        using AwaitDelay "1.IH"(2)[OF AwaitDelay True] inv_drain[OF "1.prems" AwaitDelay]
        by (simp add: advance.simps[of t s])
    next
      case False
      then show ?thesis using AwaitDelay "1.prems" by (simp add: advance.simps[of t s] inv_now)
    qed
  qed
qed

lemma inv_initial: "dispatcher_inv [] initial"
  by (simp add: dispatcher_inv_def initial_def)

lemma inv_fold:
  "dispatcher_inv js s \<Longrightarrow>
   dispatcher_inv (js @ submissions_from (length js) evs) (fold step evs s)"
proof (induction evs arbitrary: js s)
  case Nil
  then show ?case by simp
next
  case (Cons e evs)
  show ?case
  proof (cases e)
    case (Submit d out)
    have n: "nextPromise s = length js"
      using dispatcher_invD(4)[OF Cons.prems] .
    have "dispatcher_inv (js @ [\<lparr>promise = length js, duration = d, outcome = out\<rparr>])
            (queueRequest d out s)"
      using inv_queueRequest[OF Cons.prems, of d out] n by simp
    from Cons.IH[OF this] show ?thesis
      using Submit by simp
  next
    case (Elapse dt)
    from Cons.IH[OF inv_advance[OF Cons.prems, of "now s + dt"]] show ?thesis
      using Elapse by simp
  qed
qed

lemma inv_run: "dispatcher_inv (submissions evs) (run evs)"
  using inv_fold[OF inv_initial, of evs] by (simp add: submissions_def run_def)

lemma promise_submissions_from:
  "map promise (submissions_from p evs) = [p..<p + length (submissions_from p evs)]"
proof (induction p evs rule: submissions_from.induct)
  case (2 p d out evs)
  let ?n = "length (submissions_from (Suc p) evs)"
  have "[p..<p + Suc ?n] = p # [Suc p..<Suc p + ?n]"
    using upt_conv_Cons[of p "p + Suc ?n"] by (simp del: upt_Suc)
  with 2 show ?case by (simp del: upt_Suc)
qed simp_all

lemma finish_time_after_request:
  "pending s = AwaitRequest r fin \<Longrightarrow>
   finish_time (after_request r (s\<lparr>now := fin\<rparr>)) = finish_time s"
  by (cases "requestQueue s") (simp_all add: finish_time_def after_request_def drain_def Let_def)

lemma finish_time_drain:
  "pending s = AwaitDelay u \<Longrightarrow> finish_time (drain (s\<lparr>now := u\<rparr>)) = finish_time s"
proof (cases "requestQueue s")
  case Nil
  assume "pending s = AwaitDelay u"
  with Nil show ?thesis by (simp add: finish_time_def drain_def)
next
  case (Cons j q)
  assume "pending s = AwaitDelay u"
  with Cons show ?thesis by (cases q) (simp_all add: finish_time_def drain_def)
qed

lemma future_after_request:
  "pending s = AwaitRequest r fin \<Longrightarrow>
   started (after_request r (s\<lparr>now := fin\<rparr>)) @ future_starts (after_request r (s\<lparr>now := fin\<rparr>)) =
   started s @ future_starts s"
  by (cases "requestQueue s") (simp_all add: future_starts_def after_request_def drain_def Let_def)

lemma future_drain:
  "pending s = AwaitDelay u \<Longrightarrow>
   started (drain (s\<lparr>now := u\<rparr>)) @ future_starts (drain (s\<lparr>now := u\<rparr>)) =
   started s @ future_starts s"
proof (cases "requestQueue s")
  case Nil
  assume "pending s = AwaitDelay u"
  with Nil show ?thesis by (simp add: future_starts_def drain_def)
next
  case (Cons j q)
  assume "pending s = AwaitDelay u"
  with Cons show ?thesis by (cases q) (simp_all add: future_starts_def drain_def)
qed

lemma advance_finishes:
  "finish_time s \<le> t \<Longrightarrow>
   pending (advance t s) = Idle \<and> started (advance t s) = started s @ future_starts s"
proof (induction t s rule: advance.induct)
  case (1 t s)
  show ?case
  proof (cases "pending s")
    case Idle
    then show ?thesis by (simp add: advance.simps[of t s] future_starts_def)
  next
    case (AwaitRequest r fin)
    have le: "fin \<le> t"
      using "1.prems" AwaitRequest by (simp add: finish_time_def split: if_splits)
    have "finish_time (after_request r (s\<lparr>now := fin\<rparr>)) \<le> t"
      using "1.prems" finish_time_after_request[OF AwaitRequest] by simp
    from "1.IH"(1)[OF AwaitRequest le this] show ?thesis
      using AwaitRequest le future_after_request[OF AwaitRequest]
      by (simp add: advance.simps[of t s])
  next
    case (AwaitDelay u)
    have le: "u \<le> t"
      using "1.prems" AwaitDelay by (simp add: finish_time_def)
    have "finish_time (drain (s\<lparr>now := u\<rparr>)) \<le> t"
      using "1.prems" finish_time_drain[OF AwaitDelay] by simp
    from "1.IH"(2)[OF AwaitDelay le this] show ?thesis
      using AwaitDelay le future_drain[OF AwaitDelay]
      by (simp add: advance.simps[of t s])
  qed
qed

lemma idle_all_settled:
  assumes "dispatcher_inv js s" "pending s = Idle"
  shows "settled s = map own js" "map fst (started s) = map promise js" "requestQueue s = []"
proof -
  note f = dispatcher_invD[OF assms(1)]
  note g = f(5)[OF assms(2)]
  from g f(1,2) have k: "length (started s) = length js" by simp
  show "settled s = map own js" using g k by simp
  show "map fst (started s) = map promise js" using f(3) k by simp
  show "requestQueue s = []" using g by simp
qed

lemma settled_prefix:
  assumes "dispatcher_inv js s"
  shows "settled s = map own (take (length (settled s)) js)"
    and "length (settled s) \<le> length (started s)"
proof -
  note f = dispatcher_invD[OF assms]
  have "settled s = map own (take (length (settled s)) js) \<and> length (settled s) \<le> length (started s)"
  proof (cases "pending s")
    case Idle
    from f(5)[OF Idle] f(1) show ?thesis by simp
  next
    case (AwaitRequest r fin)
    from f(6)[OF AwaitRequest] f(1) show ?thesis by simp
  next
    case (AwaitDelay u)
    from f(7)[OF AwaitDelay] f(1) show ?thesis by simp
  qed
  then show "settled s = map own (take (length (settled s)) js)"
    and "length (settled s) \<le> length (started s)" by simp_all
qed

lemma run_snoc: "run (evs @ [e]) = step e (run evs)"
  by (simp add: run_def)

subsection \<open>Own outcome and submission order\<close>

text \<open>
  Claim C2. For every sequence of submissions and waits: the promises are handed out in
  submission order; the provider calls started so far are, in order, those of a prefix of
  the submitted jobs, and the queue holds the rest in submission order; every promise
  settled so far was settled by its own job's outcome (resolved with the result, rejected
  with the error), in submission order; and once the time the dispatcher needs to fall
  idle has passed, every promise is settled with its own job's outcome and every job has
  been executed, in submission order.
\<close>

theorem queueRequest_fifo_own_outcome:
  "map promise (submissions evs) = [0..<length (submissions evs)] \<and>
   length (started (run evs)) \<le> length (submissions evs) \<and>
   map fst (started (run evs)) = map promise (take (length (started (run evs))) (submissions evs)) \<and>
   requestQueue (run evs) = drop (length (started (run evs))) (submissions evs) \<and>
   length (settled (run evs)) \<le> length (started (run evs)) \<and>
   settled (run evs) = map own (take (length (settled (run evs))) (submissions evs)) \<and>
   settled (run (evs @ [Elapse (finish_time (run evs) - now (run evs) + extra)])) =
     map own (submissions evs) \<and>
   map fst (started (run (evs @ [Elapse (finish_time (run evs) - now (run evs) + extra)]))) =
     map promise (submissions evs)"
proof -
  let ?js = "submissions evs" and ?s = "run evs"
  let ?t = "now ?s + (finish_time ?s - now ?s + extra)"
  note inv = inv_run[of evs]
  note f = dispatcher_invD[OF inv]
  have p: "map promise ?js = [0..<length ?js]"
    using promise_submissions_from[of 0 evs] by (simp add: submissions_def)
  have "finish_time ?s \<le> ?t" by simp
  then have idle: "pending (advance ?t ?s) = Idle"
    using advance_finishes by blast
  note fin = idle_all_settled[OF inv_advance[OF inv, of ?t] idle]
  have r: "run (evs @ [Elapse (finish_time ?s - now ?s + extra)]) = advance ?t ?s"
    by (simp add: run_snoc)
  show ?thesis
    using p f(1,2,3) settled_prefix[OF inv] fin(1,2) unfolding r by simp
qed

subsection \<open>Bursts\<close>

lemma fold_burst_busy:
  "isProcessingQueue s \<Longrightarrow>
   fold step (burst reqs) s =
     s\<lparr>requestQueue := requestQueue s @ submissions_from (nextPromise s) (burst reqs),
       nextPromise := nextPromise s + length reqs\<rparr>"
proof (induction reqs arbitrary: s)
  case Nil
  then show ?case by simp
next
  case (Cons r reqs)
  obtain d out where r: "r = (d, out)" by (cases r)
  let ?s1 = "s\<lparr>requestQueue := requestQueue s @ [\<lparr>promise = nextPromise s, duration = d, outcome = out\<rparr>],
        nextPromise := nextPromise s + 1\<rparr>"
  have q: "queueRequest d out s = ?s1"
    using Cons.prems by (simp add: queueRequest_def processQueue_def)
  have "isProcessingQueue ?s1" using Cons.prems by simp
  from Cons.IH[OF this] show ?case
    unfolding r using q by simp
qed

lemma sched_submissions:
  "sched u (submissions_from p (burst reqs)) = start_times p u (map fst reqs)"
proof (induction reqs arbitrary: u p)
  case Nil
  then show ?case by simp
next
  case (Cons r reqs)
  obtain d out where r: "r = (d, out)" by (cases r)
  show ?case unfolding r using Cons.IH by simp
qed

lemma own_submissions:
  "map own (submissions_from p (burst reqs)) = zip [p..<p + length reqs] (map (wrapper \<circ> snd) reqs)"
proof (induction reqs arbitrary: p)
  case Nil
  then show ?case by simp
next
  case (Cons r reqs)
  obtain d out where r: "r = (d, out)" by (cases r)
  have "[p..<p + Suc (length reqs)] = p # [Suc p..<Suc p + length reqs]"
    using upt_conv_Cons[of p "p + Suc (length reqs)"] by (simp del: upt_Suc)
  then show ?case unfolding r using Cons.IH[of "Suc p"] by (simp del: upt_Suc add: own_def)
qed

lemma burst_started:
  "started (run (burst reqs)) @ future_starts (run (burst reqs)) = start_times 0 0 (map fst reqs) \<and>
   now (run (burst reqs)) = 0"
proof (cases reqs)
  case Nil
  then show ?thesis by (simp add: run_def initial_def future_starts_def)
next
  case (Cons r rest)
  obtain d out where r: "r = (d, out)" by (cases r)
  let ?s1 = "queueRequest d out (initial :: 'a dispatcher)"
  have s1: "?s1 = \<lparr>requestQueue = [], isProcessingQueue = True, now = 0,
       pending = AwaitRequest \<lparr>promise = 0, duration = d, outcome = out\<rparr> d,
       nextPromise = 1, started = [(0, 0)], settled = []\<rparr>"
    by (simp add: queueRequest_def processQueue_def drain_def initial_def)
  have "run (burst reqs) = fold step (burst rest) ?s1"
    unfolding Cons r by (simp add: run_def)
  also have "\<dots> = ?s1\<lparr>requestQueue := requestQueue ?s1 @ submissions_from (nextPromise ?s1) (burst rest),
       nextPromise := nextPromise ?s1 + length rest\<rparr>"
    by (rule fold_burst_busy) (simp add: s1)
  finally have run: "run (burst reqs) =
     \<lparr>requestQueue = submissions_from 1 (burst rest), isProcessingQueue = True, now = 0,
       pending = AwaitRequest \<lparr>promise = 0, duration = d, outcome = out\<rparr> d,
       nextPromise = 1 + length rest, started = [(0, 0)], settled = []\<rparr>"
    by (simp add: s1)
  show ?thesis
  proof (cases rest)
    case Nil
    then show ?thesis unfolding run by (simp add: future_starts_def Cons r)
  next
    case (Cons r2 rest2)
    obtain d2 out2 where r2: "r2 = (d2, out2)" by (cases r2)
    have ne: "submissions_from 1 (burst rest) \<noteq> []" unfolding Cons r2 by simp
    show ?thesis unfolding run using ne sched_submissions[of "d + minRequestInterval" 1 rest]
      by (simp add: future_starts_def \<open>reqs = r # rest\<close> r)
  qed
qed

lemma start_times_spacing:
  "Suc i < length ds \<Longrightarrow>
   snd (start_times p t ds ! Suc i) = snd (start_times p t ds ! i) + ds ! i + minRequestInterval"
proof (induction ds arbitrary: p t i)
  case Nil
  then show ?case by simp
next
  case (Cons d ds)
  show ?case
  proof (cases i)
    case 0
    with Cons.prems obtain d2 ds2 where "ds = d2 # ds2" by (cases ds) auto
    with 0 show ?thesis by simp
  next
    case (Suc j)
    with Cons.prems have "Suc j < length ds" by simp
    from Cons.IH[OF this] Suc show ?thesis by simp
  qed
qed

lemma start_times_promises: "map fst (start_times p t ds) = [p..<p + length ds]"
proof (induction ds arbitrary: p t)
  case Nil
  then show ?case by simp
next
  case (Cons d ds)
  have "[p..<p + Suc (length ds)] = p # [Suc p..<Suc p + length ds]"
    using upt_conv_Cons[of p "p + Suc (length ds)"] by (simp del: upt_Suc)
  then show ?case using Cons.IH[of "Suc p"] by (simp del: upt_Suc)
qed

text \<open>
  Claim C3. For every queue of jobs submitted in a burst, once the time the dispatcher
  needs to fall idle has passed: every job was started exactly once, in submission order;
  the start times are those of the timetable, which depends on the durations only, each
  start being one minimum interval after the job before it has settled; every promise
  carries its own job's settlement; and a job \<open>k\<close> that fails rejects the promise \<open>k\<close>.
\<close>

theorem burst_failure_isolated:
  assumes "finish_time (run (burst reqs)) \<le> dt"
  shows "started (run (burst reqs @ [Elapse dt])) = start_times 0 0 (map fst reqs) \<and>
         settled (run (burst reqs @ [Elapse dt])) = zip [0..<length reqs] (map (wrapper \<circ> snd) reqs) \<and>
         requestQueue (run (burst reqs @ [Elapse dt])) = [] \<and>
         map fst (start_times 0 0 (map fst reqs)) = [0..<length reqs] \<and>
         (\<forall>i. Suc i < length reqs \<longrightarrow>
            snd (start_times 0 0 (map fst reqs) ! Suc i) =
              snd (start_times 0 0 (map fst reqs) ! i) + fst (reqs ! i) + minRequestInterval) \<and>
         (\<forall>k e. k < length reqs \<and> snd (reqs ! k) = Inl e \<longrightarrow>
            settled (run (burst reqs @ [Elapse dt])) ! k = (k, Rejected e))"
proof -
  let ?s = "run (burst reqs)"
  note b = burst_started[of reqs]
  have r: "run (burst reqs @ [Elapse dt]) = advance dt ?s"
    using b by (simp add: run_snoc)
  note a = advance_finishes[OF assms]
  have inv: "dispatcher_inv (submissions (burst reqs)) (advance dt ?s)"
    by (rule inv_advance[OF inv_run])
  note fin = idle_all_settled[OF inv conjunct1[OF a]]
  have st: "started (advance dt ?s) = start_times 0 0 (map fst reqs)"
    using a b by simp
  have se: "settled (advance dt ?s) = zip [0..<length reqs] (map (wrapper \<circ> snd) reqs)"
    using fin(1) own_submissions[of 0 reqs] by (simp add: submissions_def)
  have sp: "\<forall>i. Suc i < length reqs \<longrightarrow>
            snd (start_times 0 0 (map fst reqs) ! Suc i) =
              snd (start_times 0 0 (map fst reqs) ! i) + fst (reqs ! i) + minRequestInterval"
    using start_times_spacing[of _ "map fst reqs" 0 0] by simp
  have fl: "\<forall>k e. k < length reqs \<and> snd (reqs ! k) = Inl e \<longrightarrow>
            settled (advance dt ?s) ! k = (k, Rejected e)"
    unfolding se by (simp add: wrapper_def)
  show ?thesis
    unfolding r using st se fin(3) sp fl start_times_promises[of 0 0 "map fst reqs"] by simp
qed

subsection \<open>A job submitted just after the queue has drained\<close>

text \<open>
  Claim C1 does not hold of the code. A provider call that takes one second is submitted
  at time 0; at time 1000 it has settled, the queue is empty and \<^verbatim>\<open>processQueue\<close> has
  returned without waiting; a second job submitted then starts at once, 1000 ms after
  the first, less than the minimum interval of 12000 ms.
\<close>

theorem rate_limit_bypassed_after_drain:
  "started (run [Submit 1000 (Inr (lit ''AAPL'')), Elapse 1000, Submit 1000 (Inr (lit ''MSFT''))]) =
     [(0, 0), (1, 1000)] \<and>
   1000 - 0 < minRequestInterval"
  by (simp add: run_def initial_def queueRequest_def processQueue_def drain_def advance.simps
      after_request_def Let_def minRequestInterval_def)

subsection \<open>Examples\<close>

lemma example_burst_finish: "finish_time (run (burst example_requests)) = 27500"
  by (simp add: example_requests_def run_def initial_def queueRequest_def processQueue_def
      drain_def finish_time_def minRequestInterval_def)

text \<open>The burst theorem at three requests of which the second fails.\<close>

theorem burst_failure_isolated_witness:
  "finish_time (run (burst example_requests)) \<le> 30000 \<and>
   started (run (burst example_requests @ [Elapse 30000])) = [(0, 0), (1, 13000), (2, 27000)] \<and>
   settled (run (burst example_requests @ [Elapse 30000])) =
     [(0, Resolved (lit ''AAPL'')), (1, Rejected (Error (lit ''HTTP error! status: 500''))),
      (2, Resolved (lit ''MSFT''))]"
  using burst_failure_isolated[of example_requests 30000]
  by (simp add: example_burst_finish)
     (simp add: example_requests_def minRequestInterval_def wrapper_def upt_rec)

lemma example_events_state:
  "finish_time (run example_events) = 12800" "now (run example_events) = 100"
  "submissions example_events =
     [\<lparr>promise = 0, duration = 500, outcome = Inl (Error (lit ''HTTP error! status: 500''))\<rparr>,
      \<lparr>promise = 1, duration = 300, outcome = Inr (lit ''MSFT'')\<rparr>]"
  by (simp_all add: example_events_def run_def initial_def queueRequest_def processQueue_def
      drain_def finish_time_def minRequestInterval_def advance.simps submissions_def)

text \<open>The theorem of claim C2 at a failing job, a wait and a second job.\<close>

theorem queueRequest_fifo_own_outcome_witness:
  "settled (run (example_events @ [Elapse 12700])) =
     [(0, Rejected (Error (lit ''HTTP error! status: 500''))), (1, Resolved (lit ''MSFT''))] \<and>
   map fst (started (run (example_events @ [Elapse 12700]))) = [0, 1]"
  using queueRequest_fifo_own_outcome[of example_events 0]
  by (simp add: example_events_state own_def wrapper_def)

section \<open>Properties of the Cache-Aside Fetcher\<close>

subsection \<open>The cutoff of the cache read\<close>

lemma time_parts:
  "MakeDate (Day t) (MakeTime (HourFromTime t) (MinFromTime t) (SecFromTime t) (msFromTime t)) = t"
proof -
  have a: "t mod 60000 = 1000 * (t div 1000 mod 60) + t mod 1000"
    using zmod_zmult2_eq[of 60 t 1000] by simp
  have b: "t mod 3600000 = 60000 * (t div 60000 mod 60) + t mod 60000"
    using zmod_zmult2_eq[of 60 t 60000] by simp
  have c: "t mod 86400000 = 3600000 * (t div 3600000 mod 24) + t mod 3600000"
    using zmod_zmult2_eq[of 24 t 3600000] by simp
  have d: "t = 86400000 * (t div 86400000) + t mod 86400000"
    by simp
  show ?thesis
    unfolding MakeDate_def MakeTime_def Day_def HourFromTime_def MinFromTime_def SecFromTime_def
      msFromTime_def msPerDay_def msPerHour_def msPerMinute_def msPerSecond_def
    using a b c d by linarith
qed

lemma MakeTime_hour:
  "MakeDate days (MakeTime (hour - 24) minute sec ms) =
     MakeDate days (MakeTime hour minute sec ms) - 86400000"
  by (simp add: MakeDate_def MakeTime_def msPerHour_def algebra_simps)

lemma twentyFourHoursAgo_local:
  "twentyFourHoursAgo env =
     UTC (LocalTZA env) (LocalTime (LocalTZA env) (clock_read env) - 86400000)"
  by (simp add: twentyFourHoursAgo_def setHours_def getHours_def Let_def MakeTime_hour time_parts)

lemma twentyFourHoursAgo_offsets:
  "twentyFourHoursAgo env =
     clock_read env - 86400000 +
       (LocalTZA env (clock_read env) True -
        LocalTZA env (clock_read env + LocalTZA env (clock_read env) True - 86400000) False)"
  by (simp add: twentyFourHoursAgo_local UTC_def LocalTime_def)

subsection \<open>Hits and misses of the cache read\<close>

lemma getCachedStockData_hit:
  assumes "read_fault env = None"
    and "store (toUpperCase env symb, dataType) = Some row"
    and "twentyFourHoursAgo env \<le> fetched_at row"
  shows "getCachedStockData env store symb dataType = (Some (row_data row), [])"
  using assms by (simp add: getCachedStockData_def select_single_def Let_def)


lemma getCachedStockData_absent:
  assumes "store (toUpperCase env symb, dataType) = None"
  shows "fst (getCachedStockData env store symb dataType) = None"
  using assms
  by (cases "read_fault env")
     (simp_all add: getCachedStockData_def select_single_def Let_def no_rows_def)

lemma getCachedStockData_stale:
  assumes "store (toUpperCase env symb, dataType) = Some row"
    and "fetched_at row < twentyFourHoursAgo env"
  shows "fst (getCachedStockData env store symb dataType) = None"
  using assms
  by (cases "read_fault env")
     (simp_all add: getCachedStockData_def select_single_def Let_def no_rows_def)

subsection \<open>The read path\<close>

lemma getDailyTimeSeries_hit:
  assumes "getCachedStockData env store symb (lit ''TIME_SERIES_DAILY'') = (Some cached, log1)"
  shows "returned (getDailyTimeSeries env store symb) = Inr (toResult env cached True)"
    and "dispatched (getDailyTimeSeries env store symb) = []"
    and "store_after (getDailyTimeSeries env store symb) = store"
  using assms by (simp_all add: getDailyTimeSeries_def Let_def)

lemma getDailyTimeSeries_miss:
  assumes "fst (getCachedStockData env store symb (lit ''TIME_SERIES_DAILY'')) = None"
  shows "dispatched (getDailyTimeSeries env store symb) = [symb]"
    and "fetched env = Resolved payload \<Longrightarrow>
           returned (getDailyTimeSeries env store symb) = Inr (toResult env payload False)"
    and "fetched env = Rejected e \<Longrightarrow> returned (getDailyTimeSeries env store symb) = Inl e"
proof -
  obtain log1 where c: "getCachedStockData env store symb (lit ''TIME_SERIES_DAILY'') = (None, log1)"
    using assms by (cases "getCachedStockData env store symb (lit ''TIME_SERIES_DAILY'')") simp
  show "dispatched (getDailyTimeSeries env store symb) = [symb]"
    using c by (cases "fetched env")
      (simp_all add: getDailyTimeSeries_def Let_def split: prod.splits)
  show "fetched env = Resolved payload \<Longrightarrow>
           returned (getDailyTimeSeries env store symb) = Inr (toResult env payload False)"
    using c by (simp add: getDailyTimeSeries_def Let_def split: prod.splits)
  show "fetched env = Rejected e \<Longrightarrow> returned (getDailyTimeSeries env store symb) = Inl e"
    using c by (simp add: getDailyTimeSeries_def Let_def)
qed


subsection \<open>Examples\<close>

lemma example_key: "asciiUpper (lit ''aapl'') = lit ''AAPL''"
  by (simp add: asciiUpper_def asciiUpperChar_def lit_def)

lemma parsed_doubles:
  "to_double False 100 = Fin 100" "to_double False 101 = Fin 101"
  "to_double False 1000 = Fin 1000"
  using to_double_eval(1)[of 100 6 False] to_double_eval(1)[of 101 6 False]
    to_double_eval(1)[of 1000 9 False]
  by (simp_all add: pow2_def roundTiesToEven_def Let_def)

lemma example_normalize:
  "normalizeTimeSeriesData parseDigits dateDigits (timeSeries example_payload) = example_normalized"
  by (simp add: normalizeTimeSeriesData_def example_payload_def example_values_def
      example_normalized_def parseDigits_def dateDigits_def is_digit_def lit_def parsed_doubles)

lemma example_env_fields:
  "toUpperCase example_env = asciiUpper" "parseFloat example_env = parseDigits"
  "getTime example_env = dateDigits" "clock_read example_env = 1704300000000"
  "read_fault example_env = None" "fetched example_env = Resolved example_payload"
  "LocalTZA example_env = utcZone"
  by (simp_all add: example_env_def)



lemma example_payload_meta:
  "Symbol (metaData example_payload) = lit ''AAPL''"
  "LastRefreshed (metaData example_payload) = lit ''2024-01-03''"
  by (simp_all add: example_payload_def)

lemma zone_env_fields:
  "toUpperCase spring_env = asciiUpper" "parseFloat spring_env = parseDigits"
  "getTime spring_env = dateDigits" "clock_read spring_env = 1710086400000"
  "read_fault spring_env = None" "fetched spring_env = Resolved example_payload"
  "toUpperCase autumn_env = asciiUpper" "parseFloat autumn_env = parseDigits"
  "getTime autumn_env = dateDigits" "clock_read autumn_env = 1730653200000"
  "read_fault autumn_env = None" "fetched autumn_env = Resolved example_payload"
  by (simp_all add: spring_env_def autumn_env_def example_env_def)

lemma spring_cutoff: "twentyFourHoursAgo spring_env = 1710086400000 - 23 * 3600000"
  by (simp add: twentyFourHoursAgo_offsets spring_env_def example_env_def newYork2024_def
      msPerHour_def)

lemma autumn_cutoff: "twentyFourHoursAgo autumn_env = 1730653200000 - 25 * 3600000"
  by (simp add: twentyFourHoursAgo_offsets autumn_env_def example_env_def newYork2024_def
      msPerHour_def)

lemma fetched_when_row:
  "fetched_when t (lit ''AAPL'', lit ''TIME_SERIES_DAILY'') =
     Some \<lparr>row_data = example_payload, fetched_at = t\<rparr>"
  by (simp add: fetched_when_def)



text \<open>
  Claim C4 as stated also promises a hit for every entry fetched within the last 24
  hours and a miss for every older one, wherever the host is. On a host in New York,
  at noon of 2024-03-10 (16:00Z) the local time 24 hours earlier is only 23 hours back,
  and an entry fetched 23 and a half hours before the read is a miss, which submits a
  fetch job; at noon of 2024-11-03 (17:00Z) it is 25 hours back, and an entry fetched 24
  and a half hours before the read is a hit.
\<close>

theorem daylight_saving_window:
  "clock_read spring_env - 24 * 3600000 \<le> clock_read spring_env - 84600000 \<and>
   twentyFourHoursAgo spring_env = clock_read spring_env - 23 * 3600000 \<and>
   dispatched (getDailyTimeSeries spring_env (fetched_when (clock_read spring_env - 84600000))
                 (lit ''aapl'')) = [lit ''aapl''] \<and>
   returned (getDailyTimeSeries spring_env (fetched_when (clock_read spring_env - 84600000))
               (lit ''aapl'')) =
     Inr \<lparr>res_symbol = lit ''AAPL'', lastRefreshed = lit ''2024-01-03'',
          dailyData = example_normalized, fromCache = False\<rparr> \<and>
   clock_read autumn_env - 88200000 < clock_read autumn_env - 24 * 3600000 \<and>
   twentyFourHoursAgo autumn_env = clock_read autumn_env - 25 * 3600000 \<and>
   dispatched (getDailyTimeSeries autumn_env (fetched_when (clock_read autumn_env - 88200000))
                 (lit ''aapl'')) = [] \<and>
   returned (getDailyTimeSeries autumn_env (fetched_when (clock_read autumn_env - 88200000))
               (lit ''aapl'')) =
     Inr \<lparr>res_symbol = lit ''AAPL'', lastRefreshed = lit ''2024-01-03'',
          dailyData = example_normalized, fromCache = True\<rparr>"
proof -
  have miss: "fst (getCachedStockData spring_env (fetched_when (1710086400000 - 84600000))
                 (lit ''aapl'') (lit ''TIME_SERIES_DAILY'')) = None"
    by (rule getCachedStockData_stale[of _ _ _ _
          "\<lparr>row_data = example_payload, fetched_at = 1710086400000 - 84600000\<rparr>"])
       (simp_all add: zone_env_fields example_key fetched_when_row spring_cutoff)
  have hit: "getCachedStockData autumn_env (fetched_when (1730653200000 - 88200000))
                 (lit ''aapl'') (lit ''TIME_SERIES_DAILY'') = (Some example_payload, [])"
    using getCachedStockData_hit[of autumn_env "fetched_when (1730653200000 - 88200000)"
        "lit ''aapl''" "lit ''TIME_SERIES_DAILY''"
        "\<lparr>row_data = example_payload, fetched_at = 1730653200000 - 88200000\<rparr>"]
    by (simp add: zone_env_fields example_key fetched_when_row autumn_cutoff)
  show ?thesis
    using getDailyTimeSeries_miss(1)[OF miss]
      getDailyTimeSeries_miss(2)[OF miss zone_env_fields(6)]
      getDailyTimeSeries_hit(1)[OF hit] getDailyTimeSeries_hit(2)[OF hit]
    by (simp add: zone_env_fields toResult_def example_payload_meta example_normalize
        spring_cutoff autumn_cutoff)
qed

subsection \<open>Failure of the cache write\<close>

text \<open>
  Claim C5. On a cache miss whose fetch succeeds at the provider, a failure of the upsert
  into the Cache Store is written to the console and goes no further: the caller
  receives the fresh payload normalized with \<open>fromCache = false\<close>, the same result as
  when the upsert succeeds, and the store is left as it was.
\<close>

theorem cache_write_failure_swallowed:
  assumes "fst (getCachedStockData env store symb (lit ''TIME_SERIES_DAILY'')) = None"
    and "fetched env = Resolved payload"
    and "write_fault env = Some e"
  shows "returned (getDailyTimeSeries env store symb) =
           Inr \<lparr>res_symbol = Symbol (metaData payload),
                lastRefreshed = LastRefreshed (metaData payload),
                dailyData = normalizeTimeSeriesData (parseFloat env) (getTime env)
                              (timeSeries payload),
                fromCache = False\<rparr> \<and>
         returned (getDailyTimeSeries env store symb) =
           returned (getDailyTimeSeries (env\<lparr>write_fault := None\<rparr>) store symb) \<and>
         store_after (getDailyTimeSeries env store symb) = store \<and>
         last (console (getDailyTimeSeries env store symb)) =
           lit ''Error caching stock data: '' @ message e"
proof -
  obtain log1 where c: "getCachedStockData env store symb (lit ''TIME_SERIES_DAILY'') = (None, log1)"
    using assms(1) by (cases "getCachedStockData env store symb (lit ''TIME_SERIES_DAILY'')") simp
  have same: "getCachedStockData (env\<lparr>write_fault := None\<rparr>) store symb (lit ''TIME_SERIES_DAILY'') =
      getCachedStockData env store symb (lit ''TIME_SERIES_DAILY'')"
    by (simp add: getCachedStockData_def twentyFourHoursAgo_def)
  have w: "cacheStockData env store symb (lit ''TIME_SERIES_DAILY'') payload =
      (store, [lit ''Error caching stock data: '' @ message e])"
    using assms(3) by (simp add: cacheStockData_def upsert_def)
  have r0: "returned (getDailyTimeSeries (env\<lparr>write_fault := None\<rparr>) store symb) =
      Inr (toResult env payload False)"
    using c same assms(2)
    by (simp add: getDailyTimeSeries_def Let_def toResult_def split: prod.splits)
  have r: "getDailyTimeSeries env store symb =
      \<lparr>returned = Inr (toResult env payload False), dispatched = [symb], store_after = store,
       console = (log1 @ [lit ''Fetching fresh data for '' @ symb @ lit '' from Alpha Vantage'']) @
                   [lit ''Error caching stock data: '' @ message e]\<rparr>"
    using c assms(2) w by (simp add: getDailyTimeSeries_def Let_def)
  show ?thesis
    unfolding r r0 by (simp add: toResult_def)
qed

text \<open>
  The theorem at an empty store and an upsert refused by the row-level security of the
  table.
\<close>

theorem cache_write_failure_swallowed_witness:
  "fst (getCachedStockData (example_env\<lparr>write_fault := Some write_denied\<rparr>) Map.empty
          (lit ''aapl'') (lit ''TIME_SERIES_DAILY'')) = None \<and>
   fetched (example_env\<lparr>write_fault := Some write_denied\<rparr>) = Resolved example_payload \<and>
   write_fault (example_env\<lparr>write_fault := Some write_denied\<rparr>) = Some write_denied \<and>
   returned (getDailyTimeSeries (example_env\<lparr>write_fault := Some write_denied\<rparr>) Map.empty
               (lit ''aapl'')) =
     Inr \<lparr>res_symbol = lit ''AAPL'', lastRefreshed = lit ''2024-01-03'',
          dailyData = example_normalized, fromCache = False\<rparr> \<and>
   last (console (getDailyTimeSeries (example_env\<lparr>write_fault := Some write_denied\<rparr>) Map.empty
                    (lit ''aapl''))) =
     lit ''Error caching stock data: new row violates row-level security policy''"
proof -
  have miss: "fst (getCachedStockData (example_env\<lparr>write_fault := Some write_denied\<rparr>) Map.empty
          (lit ''aapl'') (lit ''TIME_SERIES_DAILY'')) = None"
    by (rule getCachedStockData_absent) simp
  have f: "fetched (example_env\<lparr>write_fault := Some write_denied\<rparr>) = Resolved example_payload"
    by (simp add: example_env_def)
  have w: "write_fault (example_env\<lparr>write_fault := Some write_denied\<rparr>) = Some write_denied"
    by simp
  have m: "lit ''Error caching stock data: '' @ message write_denied =
      lit ''Error caching stock data: new row violates row-level security policy''"
    by (simp add: write_denied_def lit_def)
  show ?thesis
    using cache_write_failure_swallowed[OF miss f w] miss f w
    by (simp add: example_env_fields example_payload_meta example_normalize m)
qed

end
